theory Spec2Isabelle
  imports Complex_Main
begin

section \<open>Values shared by the two services\<close>

text \<open>
  Numbers of the program are JavaScript numbers, that is doubles. A price is modelled by
  the real number the double is, and a millisecond timestamp by the integer it is;
  comparisons of doubles are exact, and so is the difference of two timestamps. Arithmetic
  on prices rounds: the one computation with prices that decides what the engine does
  (line 41 of \<open>alerts.js\<close>) takes its operations as parameters, see \<open>runtime\<close> below.
  Strings are HOL strings, one \<open>char\<close> per UTF-16 code unit below 256.
\<close>

text \<open>
  The two case conversions of \<open>String.prototype\<close> are taken as given: every function that
  converts a symbol receives them in this record, and every theorem holds for whatever they
  compute.
\<close>

record js =
  toUpperCase :: "string \<Rightarrow> string"
  toLowerCase :: "string \<Rightarrow> string"

text \<open>
  \<open>config/config.js\<close> is not part of the repository (only its template is), so the
  configuration is a parameter. The fields are the ones the two services read.
\<close>

record config =
  CACHE_DURATION :: int
  RATE_LIMIT_BACKOFF :: int
  PRICE_FRESHNESS_WINDOW :: int
  AUTO_ALERT_THRESHOLD :: real
  AUTO_ALERT_COOLDOWN :: int
  SYMBOL_MAP :: "string \<rightharpoonup> string"

text \<open>
  \<open>utils/helpers.js\<close>, \<open>getCoinGeckoId\<close>:
  \<^verbatim>\<open>return symbolMap[symbol.toUpperCase()] || symbol.toLowerCase();\<close>
  The operator \<open>||\<close> also falls through on an empty string.
\<close>

definition getCoinGeckoId :: "js \<Rightarrow> string \<Rightarrow> (string \<rightharpoonup> string) \<Rightarrow> string" where
  "getCoinGeckoId j symbol symbolMap =
     (case symbolMap (toUpperCase j symbol) of
        Some coinId \<Rightarrow> if coinId = [] then toLowerCase j symbol else coinId
      | None \<Rightarrow> toLowerCase j symbol)"

section \<open>Price feeds: \<open>services/priceFeeds.js\<close>\<close>

text \<open>
  The object \<open>getCryptoData\<close> builds. \<open>change24h\<close> stands for the two-decimal rendering
  of the number it holds; \<open>None\<close> in the last three fields is the string \<open>'N/A'\<close>. No
  function of the two services reads these three fields.
\<close>

record crypto_data =
  price :: real
  change24h :: "real option"
  marketCap :: "real option"
  volume24h :: "real option"

text \<open>An entry of \<open>realtimePrices\<close> or of \<open>priceCache\<close>: the same object with its stamp.\<close>

record price_entry = crypto_data +
  timestamp :: int
  source :: string

text \<open>
  One coin of the body CoinGecko answers with; an absent field is \<open>None\<close>. \<open>usd\<close> is
  taken to be there and to be a number, as the request asks for it. A coin that comes
  without a numeric \<open>usd\<close>, and a coin id that names a member the parsed body inherits
  (\<open>constructor\<close>, ...), are outside these records: for them the source builds an object
  without a price, writes it to the cache and then fails on \<open>freshData.price.toFixed\<close>
  (line 220) with a \<open>TypeError\<close> that the resolver rethrows.
\<close>

record coin_payload =
  usd :: real
  usd_24h_change :: "real option"
  usd_market_cap :: "real option"
  usd_24h_vol :: "real option"

text \<open>
  What \<open>axios.get\<close> does for a request of one coin id: it resolves with a body, indexed by
  coin id, or it rejects with an error whose \<open>response.status\<close> is given when there is
  one (a timeout has none).
\<close>

datatype http_result = Response "string \<rightharpoonup> coin_payload" | Failure "nat option"

datatype js_error = HttpError "nat option"

text \<open>\<open>x || 'N/A'\<close> on a number: zero is falsy.\<close>

definition orNA :: "real option \<Rightarrow> real option" where
  "orNA v = (case v of Some x \<Rightarrow> if x = 0 then None else Some x | None \<Rightarrow> None)"

text \<open>
  \<open>getCryptoData\<close>. The whole body is inside \<open>try\<close>, and the handler logs and returns
  \<open>null\<close>: a rejected request is the value \<open>None\<close>. The second component lists the coin
  ids requested from CoinGecko.
\<close>

definition getCryptoData ::
  "js \<Rightarrow> config \<Rightarrow> (string \<Rightarrow> http_result) \<Rightarrow> string \<Rightarrow> (js_error + crypto_data option) \<times> string list"
where
  "getCryptoData j cfg http symbol =
     (let coinId = getCoinGeckoId j symbol (SYMBOL_MAP cfg) in
      (case http coinId of
         Failure st \<Rightarrow> Inr None
       | Response body \<Rightarrow>
           (case body coinId of
              None \<Rightarrow> Inr None
            | Some d \<Rightarrow>
                Inr (Some \<lparr>price = usd d,
                           change24h = usd_24h_change d,
                           marketCap = orNA (usd_market_cap d),
                           volume24h = orNA (usd_24h_vol d)\<rparr>)),
       [coinId]))"

text \<open>The module's storage: two maps and the time of the last rate limit.\<close>

record price_state =
  realtimePrices :: "(string \<times> price_entry) list"
  priceCache :: "string \<rightharpoonup> price_entry"
  lastRateLimitTime :: int

text \<open>
  \<open>realtimePrices\<close> is a \<open>Map\<close>, kept as the list of its entries in insertion order
  (\<open>checkAutoVolatilityAlerts\<close> iterates over its keys); \<open>has\<close> and \<open>get\<close> are \<open>map_of\<close>.
\<close>

text \<open>What \<open>getCachedCryptoData\<close> returns: a stamped entry, or the fresh object as fetched.\<close>

datatype resolved = Entry price_entry | Fresh crypto_data

text \<open>
  One call of the resolver: what the promise settles with (\<open>Inl\<close> a rejection, \<open>Inr None\<close>
  the value \<open>null\<close>), the storage afterwards, and the coin ids requested from CoinGecko.
\<close>

record resolution =
  outcome :: "js_error + resolved option"
  state :: price_state
  requests :: "string list"

text \<open>
  Lines 223 to 236, the handler of the resolver's \<open>try\<close>:
  \<^verbatim>\<open>
  if (error.response && error.response.status === 429) {
    lastRateLimitTime = now;
    if (priceCache.has(cacheKey)) return priceCache.get(cacheKey);
    else if (realtimePrices.has(symbolUpper)) return realtimePrices.get(symbolUpper);
  }
  throw error;
  \<close>
\<close>

definition coldFetchHandler ::
  "js_error \<Rightarrow> int \<Rightarrow> price_state \<Rightarrow> string \<Rightarrow> string \<Rightarrow> string list \<Rightarrow> resolution"
where
  "coldFetchHandler error now st cacheKey symbolUpper reqs =
     (case error of HttpError status \<Rightarrow>
        if status = Some 429 then
          (let st' = st\<lparr>lastRateLimitTime := now\<rparr> in
           case priceCache st' cacheKey of
             Some c \<Rightarrow> \<lparr>outcome = Inr (Some (Entry c)), state = st', requests = reqs\<rparr>
           | None \<Rightarrow>
               (case map_of (realtimePrices st') symbolUpper of
                  Some r \<Rightarrow> \<lparr>outcome = Inr (Some (Entry r)), state = st', requests = reqs\<rparr>
                | None \<Rightarrow> \<lparr>outcome = Inl error, state = st', requests = reqs\<rparr>))
        else \<lparr>outcome = Inl error, state = st, requests = reqs\<rparr>)"

text \<open>Lines 209 to 238: the cold fetch, its \<open>try\<close> and the final \<open>return null\<close>.\<close>

definition coldFetch ::
  "js \<Rightarrow> config \<Rightarrow> (string \<Rightarrow> http_result) \<Rightarrow> int \<Rightarrow> price_state \<Rightarrow> string \<Rightarrow> resolution"
where
  "coldFetch j cfg http now st symbol =
     (let cacheKey = toLowerCase j symbol;
          symbolUpper = toUpperCase j symbol;
          (answer, reqs) = getCryptoData j cfg http symbol
      in case answer of
           Inr (Some freshData) \<Rightarrow>
             \<lparr>outcome = Inr (Some (Fresh freshData)),
              state = st\<lparr>priceCache := (priceCache st)(cacheKey \<mapsto>
                         crypto_data.extend freshData
                           (price_entry.fields now ''coingecko''))\<rparr>,
              requests = reqs\<rparr>
         | Inr None \<Rightarrow> \<lparr>outcome = Inr None, state = st, requests = reqs\<rparr>
         | Inl error \<Rightarrow> coldFetchHandler error now st cacheKey symbolUpper reqs)"

text \<open>Lines 187 to 198: what is returned while the backoff is active.\<close>

definition backoffFallback :: "price_state \<Rightarrow> string \<Rightarrow> string \<Rightarrow> resolved option" where
  "backoffFallback st cacheKey symbolUpper =
     (case priceCache st cacheKey of
        Some c \<Rightarrow> Some (Entry c)
      | None \<Rightarrow>
          (case map_of (realtimePrices st) symbolUpper of
             Some r \<Rightarrow> Some (Entry r)
           | None \<Rightarrow> None))"

text \<open>
  \<open>getCachedCryptoData(symbol, forceRefresh)\<close>, in the order of the source: the realtime
  entry when it is fresh, the backoff gate, the valid cache unless \<open>forceRefresh\<close>, the
  cold fetch. \<open>now\<close> is the one reading of \<open>Date.now()\<close> the function takes.
\<close>

definition getCachedCryptoData ::
  "js \<Rightarrow> config \<Rightarrow> (string \<Rightarrow> http_result) \<Rightarrow> int \<Rightarrow> price_state \<Rightarrow> string \<Rightarrow> bool \<Rightarrow> resolution"
where
  "getCachedCryptoData j cfg http now st symbol forceRefresh =
     (let cacheKey = toLowerCase j symbol;
          symbolUpper = toUpperCase j symbol
      in case (case map_of (realtimePrices st) symbolUpper of
                 Some realtimeData \<Rightarrow>
                   if now - timestamp realtimeData < PRICE_FRESHNESS_WINDOW cfg
                   then Some realtimeData else None
               | None \<Rightarrow> None) of
           Some realtimeData \<Rightarrow>
             \<lparr>outcome = Inr (Some (Entry realtimeData)), state = st, requests = []\<rparr>
         | None \<Rightarrow>
             if now - lastRateLimitTime st < RATE_LIMIT_BACKOFF cfg then
               \<lparr>outcome = Inr (backoffFallback st cacheKey symbolUpper), state = st, requests = []\<rparr>
             else
               (case (if forceRefresh then None
                      else (case priceCache st cacheKey of
                              Some cachedData \<Rightarrow>
                                if now - timestamp cachedData < CACHE_DURATION cfg
                                then Some cachedData else None
                            | None \<Rightarrow> None)) of
                  Some cachedData \<Rightarrow>
                    \<lparr>outcome = Inr (Some (Entry cachedData)), state = st, requests = []\<rparr>
                | None \<Rightarrow> coldFetch j cfg http now st symbol))"

section \<open>Alerts: \<open>services/alerts.js\<close>\<close>

type_synonym chat_id = int

subsection \<open>What the engine does to the outside\<close>

text \<open>
  A manual alert, as the \<open>/alert\<close> command pushes it and \<open>checkAlerts\<close> completes it.
  \<open>currentPrice\<close> is the price at creation. \<open>alertId\<close> is the template string
  \<open>symbol_targetPrice_Date.now()\<close>, kept as its three parts.
\<close>

datatype alert_status = Active | Triggered

record alert =
  symbol :: string
  targetPrice :: real
  currentPrice :: real
  timestamp :: int
  alertId :: "string \<times> real \<times> int"
  status :: alert_status
  triggerTime :: "int option"
  triggerPrice :: "real option"

text \<open>The object literal of the \<open>/alert\<close> handler; \<open>created\<close> and \<open>idTime\<close> are its two clock readings.\<close>

definition newAlert :: "string \<Rightarrow> real \<Rightarrow> real \<Rightarrow> int \<Rightarrow> int \<Rightarrow> alert" where
  "newAlert ticker target cryptoPrice created idTime =
     \<lparr>symbol = ticker, targetPrice = target, currentPrice = cryptoPrice,
      alert.timestamp = created, alertId = (ticker, target, idTime), status = Active,
      triggerTime = None, triggerPrice = None\<rparr>"

text \<open>
  The texts sent to a chat are not modelled as strings: a message is the data it is
  formatted from. For a volatility alert: the symbol, whether the direction is \<open>UP\<close>, the
  current price and the baseline's \<open>lastAlertPrice\<close>. For a manual alert: the alert after
  its status change (the market analysis that decorates the text is left out).
\<close>

datatype message = VolatilityAlert string bool real real | TargetAlert alert

text \<open>
  The trace of a run. \<open>Broadcast\<close> and \<open>Notify\<close> are the calls of \<open>bot.sendMessage\<close>, with
  whether the promise resolved; \<open>Evaluate\<close> is a call of the price resolver on behalf of a
  manual alert. The number in \<open>Evaluate\<close> and \<open>Notify\<close> is the position of the alert in
  \<open>priceAlerts[chatId]\<close>.
\<close>

datatype event =
    Broadcast chat_id message bool
  | Evaluate chat_id nat
  | Notify chat_id nat message bool

text \<open>
  The world outside the module, of any type \<open>'w\<close>: the clock and the bot. Each call takes
  the world and returns it changed, so two calls may answer differently. \<open>sendMessage\<close>
  answers \<open>False\<close> when the promise rejects.
\<close>

record 'w io =
  date_now :: "'w \<Rightarrow> int \<times> 'w"
  sendMessage :: "chat_id \<Rightarrow> message \<Rightarrow> 'w \<Rightarrow> bool \<times> 'w"

text \<open>
  The resolver is an argument of \<open>checkAlerts\<close>, as in the source: any function from the
  symbol, the \<open>forceRefresh\<close> flag and the world to a settled promise and the world.
\<close>

type_synonym 'w resolver = "string \<Rightarrow> bool \<Rightarrow> 'w \<Rightarrow> (js_error + resolved option) \<times> 'w"

subsection \<open>Auto-volatility alerts\<close>

record baseline =
  price :: real
  timestamp :: int
  lastAlertPrice :: real
  lastAlertTime :: int

text \<open>
  \<open>autoAlerts\<close>. \<open>enabled\<close> is an object from chat ids to flags, kept as the list of its
  properties in the order \<open>for ... in\<close> enumerates them.
\<close>

record auto_alerts =
  enabled :: "(chat_id \<times> bool) list"
  baselines :: "string \<rightharpoonup> baseline"
  cooldown :: int
  threshold :: real

text \<open>Lines 8 to 13: \<open>autoAlerts\<close> when the module is loaded.\<close>

definition initialAutoAlerts :: "config \<Rightarrow> auto_alerts" where
  "initialAutoAlerts cfg =
     \<lparr>enabled = [], baselines = Map.empty,
      cooldown = AUTO_ALERT_COOLDOWN cfg, threshold = AUTO_ALERT_THRESHOLD cfg\<rparr>"

text \<open>
  The result of an arithmetic operation is a double: a finite number, an infinity (a
  division by zero is not an error in JavaScript) or \<open>NaN\<close>.
\<close>

datatype js_number = Finite real | Infinity | NegInfinity | NaN

text \<open>
  What the engine takes from the JavaScript runtime, as parameters: the subtraction, the
  division and the multiplication of doubles, each rounding as it does, and the property
  names every plain object inherits from \<open>Object.prototype\<close> (\<open>constructor\<close>,
  \<open>toString\<close>, \<open>__proto__\<close>, ...). The operations have the types at which line 41 applies
  them. Every theorem about the engine holds for whatever they compute.
\<close>

record runtime =
  numSub :: "real \<Rightarrow> real \<Rightarrow> js_number"
  numDiv :: "js_number \<Rightarrow> real \<Rightarrow> js_number"
  numMul :: "js_number \<Rightarrow> real \<Rightarrow> js_number"
  inheritedName :: "string \<Rightarrow> bool"

text \<open>
  Line 41:
  \<open>((currentPrice - baseline.lastAlertPrice) / baseline.lastAlertPrice) * 100\<close>, the three
  operations in the order of the source.
\<close>

definition priceChangePercent :: "runtime \<Rightarrow> real \<Rightarrow> real \<Rightarrow> js_number" where
  "priceChangePercent r current lastPrice =
     numMul r (numDiv r (numSub r current lastPrice) lastPrice) 100"

text \<open>
  \<open>Math.abs(x) >= t\<close> and \<open>x > 0\<close>, which are exact on doubles; every comparison with
  \<open>NaN\<close> is false.
\<close>

fun absAtLeast :: "js_number \<Rightarrow> real \<Rightarrow> bool" where
  "absAtLeast (Finite x) t = (\<bar>x\<bar> \<ge> t)"
| "absAtLeast Infinity t = True"
| "absAtLeast NegInfinity t = True"
| "absAtLeast NaN t = False"

fun positive :: "js_number \<Rightarrow> bool" where
  "positive (Finite x) = (x > 0)"
| "positive Infinity = True"
| "positive NegInfinity = False"
| "positive NaN = False"

text \<open>
  Lines 51 to 67: the message goes to every chat whose flag is set; a send that fails is
  logged and the loop goes on.
\<close>

fun broadcast :: "'w io \<Rightarrow> message \<Rightarrow> (chat_id \<times> bool) list \<Rightarrow> 'w \<Rightarrow> event list \<times> 'w" where
  "broadcast io m [] w = ([], w)"
| "broadcast io m ((chatId, flag) # rest) w =
     (if flag then
        (let (ok, w1) = sendMessage io chatId m w;
             (evs, w2) = broadcast io m rest w1
         in (Broadcast chatId m ok # evs, w2))
      else broadcast io m rest w)"

text \<open>
  Lines 26 to 71, the body of the loop for one symbol whose realtime entry is
  \<open>currentData\<close>. \<open>autoAlerts.baselines\<close> is a plain object, and line 30 tests what the
  property access gives: a baseline the evaluator stored, or a member every object
  inherits, or nothing. Only when there is nothing is the baseline seeded. With a baseline,
  the change is compared with the threshold, and when the threshold and the cooldown allow
  it, the message is sent and the baseline moved. An inherited member has no
  \<open>lastAlertPrice\<close> and no \<open>lastAlertTime\<close>: the change and the elapsed time are \<open>NaN\<close>, both
  comparisons are false, and nothing happens. The two pauses of the loop only take time.
\<close>

definition checkSymbol ::
  "runtime \<Rightarrow> 'w io \<Rightarrow> string \<Rightarrow> price_entry \<Rightarrow> 'w \<Rightarrow> auto_alerts
     \<Rightarrow> event list \<times> 'w \<times> auto_alerts"
where
  "checkSymbol r io ticker currentData w aa =
     (let current = crypto_data.price currentData;
          (now, w1) = date_now io w
      in case baselines aa ticker of
           None \<Rightarrow>
             if inheritedName r ticker then ([], w1, aa)
             else
               ([], w1,
                aa\<lparr>baselines := (baselines aa)(ticker \<mapsto>
                      \<lparr>baseline.price = current, timestamp = now,
                       lastAlertPrice = current, lastAlertTime = 0\<rparr>)\<rparr>)
         | Some b \<Rightarrow>
             (let priceChange = priceChangePercent r current (lastAlertPrice b)
              in if absAtLeast priceChange (threshold aa) \<and> now - lastAlertTime b > cooldown aa
                 then
                   (let (evs, w2) =
                          broadcast io
                            (VolatilityAlert ticker (positive priceChange) current (lastAlertPrice b))
                            (enabled aa) w1
                    in (evs, w2,
                        aa\<lparr>baselines := (baselines aa)(ticker \<mapsto>
                              b\<lparr>lastAlertPrice := current, lastAlertTime := now\<rparr>)\<rparr>))
                 else ([], w1, aa)))"

text \<open>
  The loop over \<open>trackedSymbols\<close>. \<open>realtimePrices.get(symbol)\<close> reads the table the
  function was given; a symbol without an entry is skipped.
\<close>

fun volatilityLoop ::
  "runtime \<Rightarrow> 'w io \<Rightarrow> (string \<times> price_entry) list \<Rightarrow> string list \<Rightarrow> 'w \<Rightarrow> auto_alerts
     \<Rightarrow> event list \<times> 'w \<times> auto_alerts"
where
  "volatilityLoop r io realtime [] w aa = ([], w, aa)"
| "volatilityLoop r io realtime (ticker # rest) w aa =
     (case map_of realtime ticker of
        None \<Rightarrow> volatilityLoop r io realtime rest w aa
      | Some currentData \<Rightarrow>
          (let (ev1, w1, aa1) = checkSymbol r io ticker currentData w aa;
               (ev2, w2, aa2) = volatilityLoop r io realtime rest w1 aa1
           in (ev1 @ ev2, w2, aa2)))"

definition checkAutoVolatilityAlerts ::
  "runtime \<Rightarrow> 'w io \<Rightarrow> (string \<times> price_entry) list \<Rightarrow> 'w \<Rightarrow> auto_alerts
     \<Rightarrow> event list \<times> 'w \<times> auto_alerts"
where
  "checkAutoVolatilityAlerts r io realtime w aa =
     (let trackedSymbols = map fst realtime
      in if length trackedSymbols = 0 then ([], w, aa)
         else volatilityLoop r io realtime trackedSymbols w aa)"

subsection \<open>Manual alerts\<close>

definition currentPriceOf :: "resolved \<Rightarrow> real" where
  "currentPriceOf currentData =
     (case currentData of Entry e \<Rightarrow> crypto_data.price e | Fresh d \<Rightarrow> crypto_data.price d)"

text \<open>Lines 223 and 224; \<open>originalPrice\<close> is \<open>alert.currentPrice\<close>.\<close>

definition shouldTrigger :: "alert \<Rightarrow> real \<Rightarrow> bool" where
  "shouldTrigger a current =
     (let originalPrice = currentPrice a
      in (targetPrice a > originalPrice \<and> current \<ge> targetPrice a) \<or>
         (targetPrice a < originalPrice \<and> current \<le> targetPrice a))"

text \<open>
  Lines 209 to 248, the body of the inner loop for one active alert. A rejected resolver
  promise and a \<open>null\<close> both leave the alert as it is. On a trigger the status is changed
  first, then the message is built and sent, inside the same \<open>try\<close>: whatever fails after
  the status change is caught and logged, and is the answer \<open>False\<close> of \<open>sendMessage\<close> here.
\<close>

definition checkAlert ::
  "'w io \<Rightarrow> 'w resolver \<Rightarrow> chat_id \<Rightarrow> nat \<Rightarrow> alert \<Rightarrow> 'w \<Rightarrow> event list \<times> 'w \<times> alert"
where
  "checkAlert io getCached chatId i a w =
     (case getCached (symbol a) True w of
        (Inl error, w1) \<Rightarrow> ([Evaluate chatId i], w1, a)
      | (Inr None, w1) \<Rightarrow> ([Evaluate chatId i], w1, a)
      | (Inr (Some currentData), w1) \<Rightarrow>
          (let current = currentPriceOf currentData
           in if shouldTrigger a current then
                (let (now, w2) = date_now io w1;
                     a' = a\<lparr>status := Triggered, triggerTime := Some now,
                            triggerPrice := Some current\<rparr>;
                     (ok, w3) = sendMessage io chatId (TargetAlert a') w2
                 in ([Evaluate chatId i, Notify chatId i (TargetAlert a') ok], w3, a'))
              else ([Evaluate chatId i], w1, a)))"

text \<open>
  Line 205: \<open>priceAlerts[chatId].filter(alert => alert.status === 'active')\<close>. The new
  array holds the alert objects themselves; here it is the list of their positions in
  \<open>priceAlerts[chatId]\<close>.
\<close>

definition activePositions :: "alert list \<Rightarrow> nat list" where
  "activePositions alerts = filter (\<lambda>i. status (alerts ! i) = Active) [0..<length alerts]"

text \<open>
  Lines 208 to 249: the loop over the filtered alerts. It does not look at the status
  again: every alert the filter kept is checked, and changed in place.
\<close>

fun checkFiltered ::
  "'w io \<Rightarrow> 'w resolver \<Rightarrow> chat_id \<Rightarrow> nat list \<Rightarrow> alert list \<Rightarrow> 'w
     \<Rightarrow> event list \<times> 'w \<times> alert list"
where
  "checkFiltered io getCached chatId [] alerts w = ([], w, alerts)"
| "checkFiltered io getCached chatId (i # rest) alerts w =
     (let (ev1, w1, a') = checkAlert io getCached chatId i (alerts ! i) w;
          (ev2, w2, alerts') = checkFiltered io getCached chatId rest (alerts[i := a']) w1
      in (ev1 @ ev2, w2, alerts'))"

text \<open>Lines 205 to 249 for one chat, when nothing else runs in between.\<close>

definition checkUserAlerts ::
  "'w io \<Rightarrow> 'w resolver \<Rightarrow> chat_id \<Rightarrow> alert list \<Rightarrow> 'w \<Rightarrow> event list \<times> 'w \<times> alert list"
where
  "checkUserAlerts io getCached chatId alerts w =
     checkFiltered io getCached chatId (activePositions alerts) alerts w"

text \<open>
  \<open>priceAlerts\<close> is an object from chat ids to arrays: \<open>chatIds\<close> are its keys in the order
  of \<open>for ... in\<close>, \<open>priceAlerts\<close> is the lookup.
\<close>

record alert_state =
  autoAlerts :: auto_alerts
  chatIds :: "chat_id list"
  priceAlerts :: "chat_id \<rightharpoonup> alert list"

fun checkChats ::
  "'w io \<Rightarrow> 'w resolver \<Rightarrow> chat_id list \<Rightarrow> 'w \<Rightarrow> (chat_id \<rightharpoonup> alert list)
     \<Rightarrow> event list \<times> 'w \<times> (chat_id \<rightharpoonup> alert list)"
where
  "checkChats io getCached [] w pa = ([], w, pa)"
| "checkChats io getCached (chatId # rest) w pa =
     (case pa chatId of
        None \<Rightarrow> checkChats io getCached rest w pa
      | Some alerts \<Rightarrow>
          (let (ev1, w1, alerts') = checkUserAlerts io getCached chatId alerts w;
               (ev2, w2, pa') = checkChats io getCached rest w1 (pa(chatId \<mapsto> alerts'))
           in (ev1 @ ev2, w2, pa')))"

text \<open>
  \<open>checkAlerts\<close>, one call from its start to its end with nothing else running in between:
  the auto-volatility pass, then every chat.
\<close>

definition checkAlerts ::
  "runtime \<Rightarrow> 'w io \<Rightarrow> 'w resolver \<Rightarrow> (string \<times> price_entry) list \<Rightarrow> 'w \<Rightarrow> alert_state
     \<Rightarrow> event list \<times> 'w \<times> alert_state"
where
  "checkAlerts r io getCached realtime w s =
     (let (ev1, w1, aa) = checkAutoVolatilityAlerts r io realtime w (autoAlerts s);
          (ev2, w2, pa) = checkChats io getCached (chatIds s) w1 (priceAlerts s)
      in (ev1 @ ev2, w2, s\<lparr>autoAlerts := aa, priceAlerts := pa\<rparr>))"

text \<open>
  The cycles when none overlaps the next: \<open>alertMonitoring n\<close> is \<open>n\<close> calls of
  \<open>checkAlerts\<close>, each with the table \<open>getRealtimePrices()\<close> returns, each finished before
  the next starts. The timer does not wait for that: see \<open>eventLoop\<close> below.
\<close>

fun alertMonitoring ::
  "runtime \<Rightarrow> 'w io \<Rightarrow> 'w resolver \<Rightarrow> ('w \<Rightarrow> (string \<times> price_entry) list) \<Rightarrow> nat \<Rightarrow> 'w
     \<Rightarrow> alert_state \<Rightarrow> event list \<times> 'w \<times> alert_state"
where
  "alertMonitoring r io getCached getRealtimePrices 0 w s = ([], w, s)"
| "alertMonitoring r io getCached getRealtimePrices (Suc n) w s =
     (let (ev1, w1, s1) = checkAlerts r io getCached (getRealtimePrices w) w s;
          (ev2, w2, s2) = alertMonitoring r io getCached getRealtimePrices n w1 s1
      in (ev1 @ ev2, w2, s2))"

subsection \<open>The timer and the calls in flight\<close>

text \<open>
  \<open>startAlertMonitoring\<close> (lines 258 to 260) gives \<open>setInterval\<close> a function that calls
  \<open>checkAlerts\<close> and does not wait for its promise. A call is suspended at each \<open>await\<close>,
  and while it is suspended the timer can start another call; the calls share
  \<open>priceAlerts\<close> and the alert objects.

  A call in flight is at one of these points:
  \<^item> \<open>Started\<close>: it has done the auto-volatility pass and is about to enter the loop over
    the chats;
  \<^item> \<open>Awaiting chatId i rest chats\<close>: it has filtered the alerts of \<open>chatId\<close>, it is
    waiting for the resolver's answer about the alert at position \<open>i\<close>, and after it come
    the filtered positions \<open>rest\<close> and then the chats \<open>chats\<close>;
  \<^item> \<open>Finished\<close>.
\<close>

datatype task = Started | Awaiting chat_id nat "nat list" "chat_id list" | Finished

text \<open>
  From the top of the loop over the chats to the first \<open>await\<close>: each chat is filtered as
  it is reached; a chat without active alerts is passed without suspending.
\<close>

fun enterChats :: "(chat_id \<rightharpoonup> alert list) \<Rightarrow> chat_id list \<Rightarrow> task" where
  "enterChats pa [] = Finished"
| "enterChats pa (chatId # chats) =
     (case pa chatId of
        None \<Rightarrow> enterChats pa chats
      | Some alerts \<Rightarrow>
          (case activePositions alerts of
             [] \<Rightarrow> enterChats pa chats
           | i # rest \<Rightarrow> Awaiting chatId i rest chats))"

text \<open>
  One call runs from where it is suspended to its next suspension. From \<open>Awaiting\<close>: the
  answer of the resolver arrives, the alert is checked by the body of the loop, which does
  not test the status, and the call goes on to the next filtered alert, or to the next
  chats. The suspensions inside the body (the analysis, the send, the pause) are not
  points where this model lets another call in. The positions come from the filter of the
  same list and no alert is removed here, so the position is in the list.
\<close>

definition resumeTask ::
  "'w io \<Rightarrow> 'w resolver \<Rightarrow> chat_id list \<Rightarrow> task \<Rightarrow> 'w \<Rightarrow> (chat_id \<rightharpoonup> alert list)
     \<Rightarrow> event list \<times> 'w \<times> (chat_id \<rightharpoonup> alert list) \<times> task"
where
  "resumeTask io getCached keys t w pa =
     (case t of
        Started \<Rightarrow> ([], w, pa, enterChats pa keys)
      | Finished \<Rightarrow> ([], w, pa, Finished)
      | Awaiting chatId i rest chats \<Rightarrow>
          (let alerts = (case pa chatId of Some xs \<Rightarrow> xs | None \<Rightarrow> []) in
           if i < length alerts then
             (let (evs, w1, a') = checkAlert io getCached chatId i (alerts ! i) w;
                  pa1 = pa(chatId \<mapsto> alerts[i := a'])
              in (evs, w1, pa1,
                  case rest of
                    k # rest' \<Rightarrow> Awaiting chatId k rest' chats
                  | [] \<Rightarrow> enterChats pa1 chats))
           else
             ([], w, pa,
              case rest of
                k # rest' \<Rightarrow> Awaiting chatId k rest' chats
              | [] \<Rightarrow> enterChats pa chats)))"

text \<open>
  What the event loop does, one action at a time: the timer fires and a new call of
  \<open>checkAlerts\<close> starts (its auto-volatility pass is run at once), or the call in flight
  number \<open>k\<close> is resumed.
\<close>

datatype action = Tick | Resume nat

fun eventLoop ::
  "runtime \<Rightarrow> 'w io \<Rightarrow> 'w resolver \<Rightarrow> ('w \<Rightarrow> (string \<times> price_entry) list) \<Rightarrow> action list
     \<Rightarrow> 'w \<Rightarrow> alert_state \<Rightarrow> task list \<Rightarrow> event list \<times> 'w \<times> alert_state \<times> task list"
where
  "eventLoop r io getCached getRealtimePrices [] w s tasks = ([], w, s, tasks)"
| "eventLoop r io getCached getRealtimePrices (Tick # acts) w s tasks =
     (let (ev1, w1, aa) =
            checkAutoVolatilityAlerts r io (getRealtimePrices w) w (autoAlerts s);
          (ev2, w2, s2, tasks2) =
            eventLoop r io getCached getRealtimePrices acts w1 (s\<lparr>autoAlerts := aa\<rparr>)
              (tasks @ [Started])
      in (ev1 @ ev2, w2, s2, tasks2))"
| "eventLoop r io getCached getRealtimePrices (Resume k # acts) w s tasks =
     (if k < length tasks then
        (let (ev1, w1, pa, t') =
               resumeTask io getCached (chatIds s) (tasks ! k) w (priceAlerts s);
             (ev2, w2, s2, tasks2) =
               eventLoop r io getCached getRealtimePrices acts w1 (s\<lparr>priceAlerts := pa\<rparr>)
                 (tasks[k := t'])
         in (ev1 @ ev2, w2, s2, tasks2))
      else eventLoop r io getCached getRealtimePrices acts w s tasks)"

text \<open>
  The schedules in which no two calls overlap: the timer fires, the call it starts, number
  \<open>k\<close>, is resumed \<open>m\<close> times, and only then does the timer fire again.
\<close>

fun serial :: "nat \<Rightarrow> nat list \<Rightarrow> action list" where
  "serial k [] = []"
| "serial k (m # ms) = Tick # replicate m (Resume k) @ serial (Suc k) ms"

section \<open>Concrete inputs\<close>

text \<open>
  The case conversions on the code units the examples use: the ASCII letters, and U+00DF
  (the German sharp s), whose upper case is the two letters \<open>SS\<close> and which is its own
  lower case. Every other code unit is left as it is here, and the examples apply the two
  functions to ASCII letters and U+00DF only.
\<close>

definition upperUnit :: "char \<Rightarrow> string" where
  "upperUnit c =
     (case map_of (zip ''abcdefghijklmnopqrstuvwxyz'' ''ABCDEFGHIJKLMNOPQRSTUVWXYZ'') c of
        Some u \<Rightarrow> [u]
      | None \<Rightarrow> if c = CHR 0xDF then ''SS'' else [c])"

definition lowerUnit :: "char \<Rightarrow> string" where
  "lowerUnit c =
     (case map_of (zip ''ABCDEFGHIJKLMNOPQRSTUVWXYZ'' ''abcdefghijklmnopqrstuvwxyz'') c of
        Some l \<Rightarrow> [l]
      | None \<Rightarrow> [c])"

definition jsFragment :: js where
  "jsFragment = \<lparr>toUpperCase = (\<lambda>s. concat (map upperUnit s)),
                 toLowerCase = (\<lambda>s. concat (map lowerUnit s))\<rparr>"

text \<open>The values of \<open>config/config.example.js\<close>.\<close>

definition exampleConfig :: config where
  "exampleConfig =
     \<lparr>CACHE_DURATION = 120000,
      RATE_LIMIT_BACKOFF = 120000,
      PRICE_FRESHNESS_WINDOW = 15000,
      AUTO_ALERT_THRESHOLD = 3,
      AUTO_ALERT_COOLDOWN = 3600000,
      SYMBOL_MAP = map_of
        [(''BTC'', ''bitcoin''), (''ETH'', ''ethereum''), (''SOL'', ''solana''),
         (''XRP'', ''ripple''), (''HYPE'', ''hyperliquid''), (''ASTER'', ''astar''),
         (''WLFI'', ''world-liberty-financial''), (''SUI'', ''sui''), (''ADA'', ''cardano''),
         (''JUP'', ''jupiter-exchange-solana''), (''XCN'', ''chain-2''),
         (''LINK'', ''chainlink''), (''AAVE'', ''aave''), (''DOT'', ''polkadot''),
         (''UNI'', ''uniswap''), (''MATIC'', ''matic-network''), (''AVAX'', ''avalanche-2''),
         (''ATOM'', ''cosmos''), (''BNB'', ''binancecoin''), (''DOGE'', ''dogecoin''),
         (''LTC'', ''litecoin''), (''BCH'', ''bitcoin-cash''), (''XLM'', ''stellar''),
         (''VET'', ''vechain''), (''FIL'', ''filecoin''), (''TRX'', ''tron'')]\<rparr>"

definition entryAt :: "real \<Rightarrow> int \<Rightarrow> string \<Rightarrow> price_entry" where
  "entryAt p t src =
     \<lparr>crypto_data.price = p, change24h = None, marketCap = None, volume24h = None,
      price_entry.timestamp = t, source = src\<rparr>"

text \<open>A cache entry for \<open>btc\<close> written at 1700000000000, no realtime entry, no rate limit yet.\<close>

definition staleBtcState :: price_state where
  "staleBtcState =
     \<lparr>realtimePrices = [],
      priceCache = [''btc'' \<mapsto> entryAt 50000 1700000000000 ''coingecko''],
      lastRateLimitTime = 0\<rparr>"

text \<open>The same cache, a realtime entry for \<open>ETH\<close>, and a rate limit at 1700000400000.\<close>

definition backoffState :: price_state where
  "backoffState =
     \<lparr>realtimePrices = [(''ETH'', entryAt 3000 1700000000000 ''cryptocompare'')],
      priceCache = [''btc'' \<mapsto> entryAt 50000 1700000000000 ''coingecko''],
      lastRateLimitTime = 1700000400000\<rparr>"

text \<open>A cache entry under the key \<open>ss\<close>, as a lookup of \<open>SS\<close> leaves it.\<close>

definition sharpSState :: price_state where
  "sharpSState =
     \<lparr>realtimePrices = [],
      priceCache = [''ss'' \<mapsto> entryAt 2 1700000000000 ''coingecko''],
      lastRateLimitTime = 0\<rparr>"

section \<open>Reading the trace\<close>

text \<open>Whether an event is a volatility message about a symbol.\<close>

fun aboutSymbol :: "string \<Rightarrow> event \<Rightarrow> bool" where
  "aboutSymbol s (Broadcast chatId (VolatilityAlert ticker up current lastPrice) ok) = (ticker = s)"
| "aboutSymbol s (Broadcast chatId (TargetAlert a) ok) = False"
| "aboutSymbol s (Evaluate chatId i) = False"
| "aboutSymbol s (Notify chatId i m ok) = False"

text \<open>Whether an event is a message that reached its chat, and the chat a message was sent to.\<close>

fun delivered :: "event \<Rightarrow> bool" where
  "delivered (Broadcast chatId m ok) = ok"
| "delivered (Evaluate chatId i) = False"
| "delivered (Notify chatId i m ok) = ok"


text \<open>
  Whether an event belongs to the alert at position \<open>i\<close> of chat \<open>c\<close> (a resolver call or a
  notification), and whether it is its notification.
\<close>

fun concerns :: "chat_id \<Rightarrow> nat \<Rightarrow> event \<Rightarrow> bool" where
  "concerns c i (Broadcast chatId m ok) = False"
| "concerns c i (Evaluate chatId k) = (chatId = c \<and> k = i)"
| "concerns c i (Notify chatId k m ok) = (chatId = c \<and> k = i)"

fun notifies :: "chat_id \<Rightarrow> nat \<Rightarrow> event \<Rightarrow> bool" where
  "notifies c i (Broadcast chatId m ok) = False"
| "notifies c i (Evaluate chatId k) = False"
| "notifies c i (Notify chatId k m ok) = (chatId = c \<and> k = i)"

text \<open>How many times the alert at position \<open>i\<close> of chat \<open>c\<close> was notified in a trace.\<close>

definition notifications :: "chat_id \<Rightarrow> nat \<Rightarrow> event list \<Rightarrow> nat" where
  "notifications c i evs = length (filter (notifies c i) evs)"

text \<open>The alert at position \<open>i\<close> of \<open>priceAlerts[c]\<close>, when there is one.\<close>

definition alertAt :: "(chat_id \<rightharpoonup> alert list) \<Rightarrow> chat_id \<Rightarrow> nat \<Rightarrow> alert option" where
  "alertAt pa c i =
     (case pa c of
        None \<Rightarrow> None
      | Some alerts \<Rightarrow> if i < length alerts then Some (alerts ! i) else None)"

text \<open>1 for an alert that has been triggered, 0 otherwise.\<close>

definition spent :: "alert option \<Rightarrow> nat" where
  "spent x = (case x of None \<Rightarrow> 0 | Some a \<Rightarrow> if status a = Triggered then 1 else 0)"

section \<open>Concrete inputs for the alert engine\<close>

text \<open>
  Two worlds that are a clock showing a given time: in the first every message is
  delivered, in the second every send fails.
\<close>

definition clockIo :: "int io" where
  "clockIo = \<lparr>date_now = (\<lambda>t. (t, t)), sendMessage = (\<lambda>chatId m t. (True, t))\<rparr>"

definition deafIo :: "int io" where
  "deafIo = \<lparr>date_now = (\<lambda>t. (t, t)), sendMessage = (\<lambda>chatId m t. (False, t))\<rparr>"

text \<open>
  Arithmetic without rounding, with the infinities and \<open>NaN\<close> where a division by zero
  gives them. It is what the code computes whenever the exact result of each operation is
  a double; the examples use prices for which that is so.
\<close>

fun exactDiv :: "js_number \<Rightarrow> real \<Rightarrow> js_number" where
  "exactDiv (Finite a) b =
     (if b \<noteq> 0 then Finite (a / b)
      else if a > 0 then Infinity else if a < 0 then NegInfinity else NaN)"
| "exactDiv Infinity b = (if b < 0 then NegInfinity else Infinity)"
| "exactDiv NegInfinity b = (if b < 0 then Infinity else NegInfinity)"
| "exactDiv NaN b = NaN"

fun exactMul :: "js_number \<Rightarrow> real \<Rightarrow> js_number" where
  "exactMul (Finite a) b = Finite (a * b)"
| "exactMul Infinity b = (if b > 0 then Infinity else if b < 0 then NegInfinity else NaN)"
| "exactMul NegInfinity b = (if b > 0 then NegInfinity else if b < 0 then Infinity else NaN)"
| "exactMul NaN b = NaN"

text \<open>The names a plain object inherits from \<open>Object.prototype\<close> in Node.js.\<close>

definition objectPrototypeNames :: "string list" where
  "objectPrototypeNames =
     [''constructor'', ''__defineGetter__'', ''__defineSetter__'', ''hasOwnProperty'',
      ''__lookupGetter__'', ''__lookupSetter__'', ''isPrototypeOf'', ''propertyIsEnumerable'',
      ''toString'', ''valueOf'', ''__proto__'', ''toLocaleString'']"

definition exactRuntime :: runtime where
  "exactRuntime =
     \<lparr>numSub = (\<lambda>a b. Finite (a - b)), numDiv = exactDiv, numMul = exactMul,
      inheritedName = (\<lambda>name. name \<in> set objectPrototypeNames)\<rparr>"

text \<open>
  \<open>autoAlerts\<close> as loaded with \<open>config.example.js\<close> (threshold 3, cooldown one hour),
  with the given subscriptions and baselines.
\<close>

definition watching :: "(chat_id \<times> bool) list \<Rightarrow> (string \<rightharpoonup> baseline) \<Rightarrow> auto_alerts" where
  "watching chats bs = (initialAutoAlerts exampleConfig)\<lparr>enabled := chats, baselines := bs\<rparr>"

text \<open>A baseline seeded at price 100 and time 1700000000000, with its last alert at \<open>p\<close> and \<open>t\<close>.\<close>

definition baselineAt :: "real \<Rightarrow> int \<Rightarrow> baseline" where
  "baselineAt p t =
     \<lparr>baseline.price = 100, timestamp = 1700000000000, lastAlertPrice = p, lastAlertTime = t\<rparr>"

text \<open>A resolver that answers every symbol with the price \<open>p\<close>.\<close>

definition priceIs :: "real \<Rightarrow> int resolver" where
  "priceIs p = (\<lambda>ticker forceRefresh w.
     (Inr (Some (Fresh \<lparr>crypto_data.price = p, change24h = None, marketCap = None,
                        volume24h = None\<rparr>)), w))"

text \<open>
  The alerts of the examples: a target of 60000 set at 50000, the same alert once it has
  been triggered at 60000, and a target of 100 set at 100.
\<close>

definition risingAlert :: alert where
  "risingAlert = newAlert ''BTC'' 60000 50000 1700000000000 1700000000000"

definition firedAlert :: alert where
  "firedAlert = risingAlert\<lparr>status := Triggered, triggerTime := Some 1700000030000,
                            triggerPrice := Some 60000\<rparr>"

definition flatAlert :: alert where
  "flatAlert = newAlert ''BTC'' 100 100 1700000000000 1700000000000"

text \<open>
  An alert on a symbol the poller does not track, so that every check of it is a request
  to CoinGecko: a target of 0.5 set at 0.25, and the same alert once it has been triggered
  at 0.5.
\<close>

definition dogeAlert :: alert where
  "dogeAlert = newAlert ''DOGE'' 0.5 0.25 1700000000000 1700000000000"

definition dogeFired :: alert where
  "dogeFired = dogeAlert\<lparr>status := Triggered, triggerTime := Some 1700000030000,
                          triggerPrice := Some 0.5\<rparr>"

text \<open>The engine with chat 1 holding the given alerts, and no auto-volatility subscriber.\<close>

definition engineWith :: "alert list \<Rightarrow> alert_state" where
  "engineWith alerts =
     \<lparr>autoAlerts = watching [] Map.empty, chatIds = [1], priceAlerts = [1 \<mapsto> alerts]\<rparr>"

section \<open>The concrete inputs evaluated\<close>

lemma watching_fields:
  "watching chats bs = \<lparr>enabled = chats, baselines = bs, cooldown = 3600000, threshold = 3\<rparr>"
  by (simp add: watching_def initialAutoAlerts_def exampleConfig_def)

lemma jsFragment_BTC:
  "toUpperCase jsFragment ''BTC'' = ''BTC''" "toLowerCase jsFragment ''BTC'' = ''btc''"
  by (simp_all add: jsFragment_def upperUnit_def lowerUnit_def)

lemma jsFragment_btc:
  "toUpperCase jsFragment ''btc'' = ''BTC''" "toLowerCase jsFragment ''btc'' = ''btc''"
  by (simp_all add: jsFragment_def upperUnit_def lowerUnit_def)

lemma jsFragment_ETH:
  "toUpperCase jsFragment ''ETH'' = ''ETH''" "toLowerCase jsFragment ''ETH'' = ''eth''"
  by (simp_all add: jsFragment_def upperUnit_def lowerUnit_def)

lemma jsFragment_sharp_s:
  "toUpperCase jsFragment [CHR 0xDF] = ''SS''" "toLowerCase jsFragment [CHR 0xDF] = [CHR 0xDF]"
  "toUpperCase jsFragment ''SS'' = ''SS''" "toLowerCase jsFragment ''SS'' = ''ss''"
  by (simp_all add: jsFragment_def upperUnit_def lowerUnit_def)

text \<open>On this fragment the conversions are stable on every string without U+00DF.\<close>

lemma unit_stable:
  assumes "CHR 0xDF \<noteq> c"
  shows "concat (map lowerUnit (upperUnit c)) = lowerUnit c"
    and "concat (map upperUnit (lowerUnit c)) = upperUnit c"
    and "concat (map upperUnit (upperUnit c)) = upperUnit c"
    and "concat (map lowerUnit (lowerUnit c)) = lowerUnit c"
  using assms by (auto simp: upperUnit_def lowerUnit_def)

lemma jsFragment_stable:
  assumes "CHR 0xDF \<notin> set s"
  shows "toLowerCase jsFragment (toUpperCase jsFragment s) = toLowerCase jsFragment s"
    and "toUpperCase jsFragment (toLowerCase jsFragment s) = toUpperCase jsFragment s"
    and "toUpperCase jsFragment (toUpperCase jsFragment s) = toUpperCase jsFragment s"
    and "toLowerCase jsFragment (toLowerCase jsFragment s) = toLowerCase jsFragment s"
  using assms
  by (induction s) (simp_all add: jsFragment_def unit_stable)

section \<open>The price resolver\<close>

subsection \<open>No failure of the request reaches the resolver's handler\<close>

text \<open>
  \<open>getCryptoData\<close> catches every error of its request. Whatever the request does, reject
  or answer with a body of coins as \<open>coin_payload\<close> describes them, the promise the
  resolver awaits resolves, so no failure of the request reaches the resolver's own
  handler, the only place that assigns \<open>lastRateLimitTime\<close>. The three lemmas below are
  about these answers. For a body outside \<open>coin_payload\<close> (a coin without a numeric
  \<open>usd\<close>) the source does reach the handler, from line 220, with a \<open>TypeError\<close>: it has
  no \<open>response\<close>, so the handler rethrows it and \<open>lastRateLimitTime\<close> is not assigned
  then either.
\<close>

lemma getCryptoData_returns: "\<exists>v. fst (getCryptoData j cfg http s) = Inr v"
  by (simp add: getCryptoData_def Let_def split: http_result.split option.split)

lemma getCachedCryptoData_returns:
  "\<exists>v. outcome (getCachedCryptoData j cfg http now st s forceRefresh) = Inr v"
  using getCryptoData_returns [of j cfg http s]
  by (auto simp: getCachedCryptoData_def coldFetch_def Let_def
           split: option.split prod.split sum.split if_splits)

lemma lastRateLimitTime_unchanged:
  "lastRateLimitTime (state (getCachedCryptoData j cfg http now st s forceRefresh))
     = lastRateLimitTime st"
  using getCryptoData_returns [of j cfg http s]
  by (auto simp: getCachedCryptoData_def coldFetch_def Let_def
           split: option.split prod.split sum.split if_splits)

text \<open>
  C1. The claim: when the cold fetch is answered with status 429, the resolver sets
  \<open>lastRateLimitTime\<close> to the current time and returns the cache entry of the symbol, else
  the realtime entry, else no data. The code at a 429 for \<open>BTC\<close>, with a stale cache entry
  for \<open>btc\<close>: the answer is \<open>null\<close>, not the cache entry, and the storage is unchanged, so
  \<open>lastRateLimitTime\<close> is still 0.
\<close>

theorem rate_limit_swallowed:
  "getCachedCryptoData jsFragment exampleConfig (\<lambda>coinId. Failure (Some 429)) 1700000500000
       staleBtcState ''BTC'' False
   = \<lparr>outcome = Inr None, state = staleBtcState, requests = [''bitcoin'']\<rparr>"
  by (simp add: getCachedCryptoData_def coldFetch_def getCryptoData_def getCoinGeckoId_def
      jsFragment_BTC exampleConfig_def staleBtcState_def entryAt_def Let_def)

text \<open>
  C2. The claim: when the cold fetch fails with another error, the resolver rejects with
  that error. The code at a status 500, at a timeout and at a body without the coin: the
  promise resolves with \<open>null\<close>.
\<close>

theorem fetch_failure_returns_null:
  "outcome (getCachedCryptoData jsFragment exampleConfig (\<lambda>coinId. Failure (Some 500))
              1700000500000 staleBtcState ''BTC'' False) = Inr None \<and>
   outcome (getCachedCryptoData jsFragment exampleConfig (\<lambda>coinId. Failure None)
              1700000500000 staleBtcState ''BTC'' False) = Inr None \<and>
   outcome (getCachedCryptoData jsFragment exampleConfig (\<lambda>coinId. Response Map.empty)
              1700000500000 staleBtcState ''BTC'' False) = Inr None"
  by (simp add: getCachedCryptoData_def coldFetch_def getCryptoData_def getCoinGeckoId_def
      jsFragment_BTC exampleConfig_def staleBtcState_def entryAt_def Let_def)

subsection \<open>The order of the sources\<close>

text \<open>
  C5. If the realtime table has an entry for the upper-cased symbol that is younger than
  the freshness window, the resolver returns that entry, requests nothing and changes
  nothing, whatever the cache, the backoff state and \<open>forceRefresh\<close> are.
\<close>

theorem fresh_realtime_first:
  "map_of (realtimePrices st) (toUpperCase j s) = Some realtimeData \<Longrightarrow>
   now - price_entry.timestamp realtimeData < PRICE_FRESHNESS_WINDOW cfg \<Longrightarrow>
   getCachedCryptoData j cfg http now st s forceRefresh
     = \<lparr>outcome = Inr (Some (Entry realtimeData)), state = st, requests = []\<rparr>"
  by (simp add: getCachedCryptoData_def Let_def)

text \<open>
  C5, witness: \<open>ETH\<close> with a realtime entry 10 seconds old, under an active backoff and
  with \<open>forceRefresh\<close>.
\<close>

theorem fresh_realtime_first_witness:
  "getCachedCryptoData jsFragment exampleConfig (\<lambda>coinId. Failure None) 1700000010000
       backoffState ''ETH'' True
     = \<lparr>outcome = Inr (Some (Entry (entryAt 3000 1700000000000 ''cryptocompare''))),
        state = backoffState, requests = []\<rparr>"
proof -
  have found: "map_of (realtimePrices backoffState) (toUpperCase jsFragment ''ETH'')
                 = Some (entryAt 3000 1700000000000 ''cryptocompare'')"
    by (simp add: backoffState_def jsFragment_ETH)
  have young: "1700000010000 - price_entry.timestamp (entryAt 3000 1700000000000 ''cryptocompare'')
                 < PRICE_FRESHNESS_WINDOW exampleConfig"
    by (simp add: entryAt_def exampleConfig_def)
  show ?thesis
    using fresh_realtime_first [OF found young] .
qed

text \<open>
  C6. While \<open>now - lastRateLimitTime < RATE_LIMIT_BACKOFF\<close>, the resolver requests nothing
  for any symbol and any \<open>forceRefresh\<close>, and changes nothing; unless a fresh realtime
  entry is returned first, it returns the cache entry of the symbol whatever its age, else
  the realtime entry whatever its age, else \<open>null\<close>.
\<close>

theorem backoff_gate:
  assumes "now - lastRateLimitTime st < RATE_LIMIT_BACKOFF cfg"
  shows "requests (getCachedCryptoData j cfg http now st s forceRefresh) = [] \<and>
         state (getCachedCryptoData j cfg http now st s forceRefresh) = st \<and>
         ((\<forall>r. map_of (realtimePrices st) (toUpperCase j s) = Some r \<longrightarrow>
                \<not> now - price_entry.timestamp r < PRICE_FRESHNESS_WINDOW cfg) \<longrightarrow>
          outcome (getCachedCryptoData j cfg http now st s forceRefresh) =
            Inr (case priceCache st (toLowerCase j s) of
                   Some c \<Rightarrow> Some (Entry c)
                 | None \<Rightarrow>
                     (case map_of (realtimePrices st) (toUpperCase j s) of
                        Some r \<Rightarrow> Some (Entry r)
                      | None \<Rightarrow> None)))"
  using assms
  by (simp add: getCachedCryptoData_def backoffFallback_def Let_def split: option.split)

text \<open>
  C6, witness: 100 seconds after a rate limit, with \<open>forceRefresh\<close>: \<open>btc\<close> is answered
  from its cache entry, 500 seconds old, and \<open>ETH\<close> from its realtime entry, as old.
\<close>

theorem backoff_gate_witness:
  "requests (getCachedCryptoData jsFragment exampleConfig (\<lambda>coinId. Failure None)
               1700000500000 backoffState ''btc'' True) = [] \<and>
   outcome (getCachedCryptoData jsFragment exampleConfig (\<lambda>coinId. Failure None)
               1700000500000 backoffState ''btc'' True)
     = Inr (Some (Entry (entryAt 50000 1700000000000 ''coingecko''))) \<and>
   outcome (getCachedCryptoData jsFragment exampleConfig (\<lambda>coinId. Failure None)
               1700000500000 backoffState ''ETH'' True)
     = Inr (Some (Entry (entryAt 3000 1700000000000 ''cryptocompare'')))"
proof -
  have gate: "1700000500000 - lastRateLimitTime backoffState < RATE_LIMIT_BACKOFF exampleConfig"
    by (simp add: backoffState_def exampleConfig_def)
  show ?thesis
    using backoff_gate [OF gate, of jsFragment "\<lambda>coinId. Failure None" "''btc''" True]
          backoff_gate [OF gate, of jsFragment "\<lambda>coinId. Failure None" "''ETH''" True]
    by (simp add: backoffState_def exampleConfig_def entryAt_def jsFragment_btc jsFragment_ETH)
qed

subsection \<open>The letter case of the symbol\<close>

text \<open>
  C9, as amended. For every symbol on which the two case conversions are stable (the lower
  case of the upper case is the lower case, the upper case of the lower case is the upper
  case, and each conversion applied twice is the conversion), the resolver gives the same
  result, storage and requests for the symbol, for its upper case and for its lower case.
\<close>

theorem case_independent:
  assumes "toLowerCase j (toUpperCase j s) = toLowerCase j s"
    and "toUpperCase j (toLowerCase j s) = toUpperCase j s"
    and "toUpperCase j (toUpperCase j s) = toUpperCase j s"
    and "toLowerCase j (toLowerCase j s) = toLowerCase j s"
  shows "getCachedCryptoData j cfg http now st (toUpperCase j s) forceRefresh
           = getCachedCryptoData j cfg http now st s forceRefresh \<and>
         getCachedCryptoData j cfg http now st (toLowerCase j s) forceRefresh
           = getCachedCryptoData j cfg http now st s forceRefresh"
  unfolding getCachedCryptoData_def coldFetch_def getCryptoData_def getCoinGeckoId_def Let_def assms
  by simp

text \<open>C9, witness: \<open>btc\<close> and \<open>BTC\<close>.\<close>

theorem case_independent_witness:
  "getCachedCryptoData jsFragment exampleConfig (\<lambda>coinId. Failure None) 1700000500000
       staleBtcState ''BTC'' False
     = getCachedCryptoData jsFragment exampleConfig (\<lambda>coinId. Failure None) 1700000500000
         staleBtcState ''btc'' False"
  using case_independent [of jsFragment "''btc''" exampleConfig "\<lambda>coinId. Failure None"
          1700000500000 staleBtcState False]
  by (simp add: jsFragment_btc jsFragment_BTC)

text \<open>
  C9, counterexample. The claim as written is for every string. The upper case of U+00DF
  is \<open>SS\<close>, whose lower case is \<open>ss\<close>: the symbol itself is looked up in the cache under
  U+00DF and misses, its upper case is looked up under \<open>ss\<close> and hits.
\<close>

theorem case_dependent_counterexample:
  "outcome (getCachedCryptoData jsFragment exampleConfig (\<lambda>coinId. Failure None) 1700000060000
              sharpSState [CHR 0xDF] False)
   \<noteq> outcome (getCachedCryptoData jsFragment exampleConfig (\<lambda>coinId. Failure None) 1700000060000
              sharpSState (toUpperCase jsFragment [CHR 0xDF]) False)"
  by (simp add: getCachedCryptoData_def coldFetch_def getCryptoData_def getCoinGeckoId_def
      jsFragment_sharp_s exampleConfig_def sharpSState_def entryAt_def Let_def)

section \<open>Auto-volatility alerts\<close>

text \<open>
  Without rounding, the threshold test is the comparison of real numbers, the division by
  zero spelled out: from a \<open>lastAlertPrice\<close> of zero the change is infinite, so at least
  any threshold, unless the current price is zero too.
\<close>

lemma exact_threshold_test:
  "absAtLeast (priceChangePercent exactRuntime current lastPrice) t \<longleftrightarrow>
     (if lastPrice = 0 then current \<noteq> 0
      else \<bar>(current - lastPrice) / lastPrice * 100\<bar> \<ge> t)"
  by (auto simp: priceChangePercent_def exactRuntime_def)

lemma exactRuntime_BTC: "\<not> inheritedName exactRuntime ''BTC''"
  by (simp add: exactRuntime_def objectPrototypeNames_def)

lemma exactRuntime_change:
  "priceChangePercent exactRuntime current lastPrice =
     (if lastPrice \<noteq> 0 then Finite ((current - lastPrice) / lastPrice * 100)
      else if current > 0 then Infinity
      else if current < 0 then NegInfinity
      else NaN)"
  by (simp add: priceChangePercent_def exactRuntime_def)

lemma broadcast_shape:
  "\<forall>e \<in> set (fst (broadcast io m chats w)). \<exists>c ok. e = Broadcast c m ok"
  by (induction io m chats w rule: broadcast.induct) (auto simp: Let_def split: prod.splits)


lemma broadcast_none_enabled:
  "\<forall>c \<in> set chats. \<not> snd c \<Longrightarrow> fst (broadcast io m chats w) = []"
  by (induction io m chats w rule: broadcast.induct) (auto simp: Let_def split: prod.splits)

lemma broadcast_all_fail:
  assumes "\<forall>c m w. \<not> fst (sendMessage io c m w)"
  shows "\<forall>e \<in> set (fst (broadcast io m chats w)). \<not> delivered e"
proof (induction chats arbitrary: w)
  case Nil
  show ?case by simp
next
  case (Cons c rest)
  obtain chatId flag where c: "c = (chatId, flag)"
    by (cases c)
  obtain ok w1 where s: "sendMessage io chatId m w = (ok, w1)"
    by (cases "sendMessage io chatId m w")
  have "\<not> ok"
    using assms s by (metis fst_conv)
  then show ?case
    using Cons.IH [of w1] Cons.IH [of w] c s
    by (simp add: Let_def split: prod.splits)
qed



text \<open>
  C10. When the threshold test of line 44, on the change line 41 computes, and the
  cooldown test hold, the baseline of the symbol is moved to the current price and time,
  also when no chat is enabled (then nothing is sent) and when every send fails (then
  nothing is delivered).
\<close>

theorem rebase_without_delivery:
  assumes "baselines aa ticker = Some b"
    and "absAtLeast (priceChangePercent r (crypto_data.price currentData) (lastAlertPrice b))
           (threshold aa)"
    and "fst (date_now io w) - lastAlertTime b > cooldown aa"
  shows
    "(let (evs, w', aa') = checkSymbol r io ticker currentData w aa
      in baselines aa' ticker =
           Some (b\<lparr>lastAlertPrice := crypto_data.price currentData,
                   lastAlertTime := fst (date_now io w)\<rparr>) \<and>
         ((\<forall>c \<in> set (enabled aa). \<not> snd c) \<longrightarrow> evs = []) \<and>
         ((\<forall>c m v. \<not> fst (sendMessage io c m v)) \<longrightarrow> (\<forall>e \<in> set evs. \<not> delivered e)))"
proof -
  obtain now w1 where clock: "date_now io w = (now, w1)"
    by (cases "date_now io w")
  let ?m = "VolatilityAlert ticker
              (positive (priceChangePercent r (crypto_data.price currentData) (lastAlertPrice b)))
              (crypto_data.price currentData) (lastAlertPrice b)"
  obtain evs w2 where sent: "broadcast io ?m (enabled aa) w1 = (evs, w2)"
    by (cases "broadcast io ?m (enabled aa) w1")
  have none: "(\<forall>c \<in> set (enabled aa). \<not> snd c) \<longrightarrow> evs = []"
    using broadcast_none_enabled [of "enabled aa" io ?m w1] sent by auto
  have fail: "(\<forall>c m v. \<not> fst (sendMessage io c m v)) \<longrightarrow> (\<forall>e \<in> set evs. \<not> delivered e)"
    using broadcast_all_fail [of io ?m "enabled aa" w1] sent by auto
  show ?thesis
    using assms clock sent none fail
    by (simp add: checkSymbol_def Let_def)
qed

text \<open>
  C10, witness: a move from 128 to 133 (+3.90625%, computed without rounding) with the
  only chat disabled, and with the only chat enabled and its send failing. Both leave the
  baseline at 133.
\<close>

theorem rebase_without_delivery_witness:
  "checkSymbol exactRuntime clockIo ''BTC'' (entryAt 133 1700000000000 ''cryptocompare'')
       1700000000000 (watching [(7, False)] [''BTC'' \<mapsto> baselineAt 128 0])
     = ([], 1700000000000, watching [(7, False)] [''BTC'' \<mapsto> baselineAt 133 1700000000000]) \<and>
   checkSymbol exactRuntime deafIo ''BTC'' (entryAt 133 1700000000000 ''cryptocompare'')
       1700000000000 (watching [(7, True)] [''BTC'' \<mapsto> baselineAt 128 0])
     = ([Broadcast 7 (VolatilityAlert ''BTC'' True 133 128) False], 1700000000000,
        watching [(7, True)] [''BTC'' \<mapsto> baselineAt 133 1700000000000])"
proof -
  have known: "baselines (watching [(7, False)] [''BTC'' \<mapsto> baselineAt 128 0]) ''BTC''
                 = Some (baselineAt 128 0)"
    by (simp add: watching_fields)
  have moved: "absAtLeast
                 (priceChangePercent exactRuntime
                    (crypto_data.price (entryAt 133 1700000000000 ''cryptocompare''))
                    (lastAlertPrice (baselineAt 128 0)))
                 (threshold (watching [(7, False)] [''BTC'' \<mapsto> baselineAt 128 0]))"
    by (simp add: watching_fields baselineAt_def entryAt_def exactRuntime_change)
  have cooled: "fst (date_now clockIo 1700000000000) - lastAlertTime (baselineAt 128 0)
                  > cooldown (watching [(7, False)] [''BTC'' \<mapsto> baselineAt 128 0])"
    by (simp add: watching_fields baselineAt_def clockIo_def)
  have quiet: "checkSymbol exactRuntime clockIo ''BTC''
                 (entryAt 133 1700000000000 ''cryptocompare'') 1700000000000
                 (watching [(7, False)] [''BTC'' \<mapsto> baselineAt 128 0])
     = ([], 1700000000000, watching [(7, False)] [''BTC'' \<mapsto> baselineAt 133 1700000000000])"
    using rebase_without_delivery [OF known moved cooled]
    by (simp add: checkSymbol_def clockIo_def watching_fields baselineAt_def entryAt_def
        exactRuntime_change Let_def)
  have known': "baselines (watching [(7, True)] [''BTC'' \<mapsto> baselineAt 128 0]) ''BTC''
                  = Some (baselineAt 128 0)"
    by (simp add: watching_fields)
  have moved': "absAtLeast
                  (priceChangePercent exactRuntime
                     (crypto_data.price (entryAt 133 1700000000000 ''cryptocompare''))
                     (lastAlertPrice (baselineAt 128 0)))
                  (threshold (watching [(7, True)] [''BTC'' \<mapsto> baselineAt 128 0]))"
    by (simp add: watching_fields baselineAt_def entryAt_def exactRuntime_change)
  have cooled': "fst (date_now deafIo 1700000000000) - lastAlertTime (baselineAt 128 0)
                   > cooldown (watching [(7, True)] [''BTC'' \<mapsto> baselineAt 128 0])"
    by (simp add: watching_fields baselineAt_def deafIo_def)
  have deaf: "checkSymbol exactRuntime deafIo ''BTC''
                (entryAt 133 1700000000000 ''cryptocompare'') 1700000000000
                (watching [(7, True)] [''BTC'' \<mapsto> baselineAt 128 0])
     = ([Broadcast 7 (VolatilityAlert ''BTC'' True 133 128) False], 1700000000000,
        watching [(7, True)] [''BTC'' \<mapsto> baselineAt 133 1700000000000])"
    using rebase_without_delivery [OF known' moved' cooled']
    by (simp add: checkSymbol_def deafIo_def watching_fields baselineAt_def entryAt_def
        exactRuntime_change Let_def)
  show ?thesis
    using quiet deaf by simp
qed

text \<open>The loop body on a symbol without a baseline, on an inherited name and on any other.\<close>

lemma checkSymbol_seed:
  assumes "baselines aa ticker = None" and "\<not> inheritedName r ticker"
  shows "checkSymbol r io ticker currentData w aa =
           ([], snd (date_now io w),
            aa\<lparr>baselines := (baselines aa)(ticker \<mapsto>
                  \<lparr>baseline.price = crypto_data.price currentData,
                   timestamp = fst (date_now io w),
                   lastAlertPrice = crypto_data.price currentData,
                   lastAlertTime = 0\<rparr>)\<rparr>)"
  using assms by (simp add: checkSymbol_def Let_def split: prod.split)

lemma checkSymbol_inherited:
  assumes "baselines aa ticker = None" and "inheritedName r ticker"
  shows "checkSymbol r io ticker currentData w aa = ([], snd (date_now io w), aa)"
  using assms by (simp add: checkSymbol_def Let_def split: prod.split)

text \<open>
  So a symbol named like an inherited member is never seeded and never alerts: for
  \<open>constructor\<close> nothing is stored, whatever the price.
\<close>

lemma constructor_never_seeded:
  "checkSymbol exactRuntime clockIo ''constructor'' (entryAt p 1700000000000 ''coincap'')
       1700000000000 (watching [(7, True)] Map.empty)
     = ([], 1700000000000, watching [(7, True)] Map.empty)"
proof -
  have "inheritedName exactRuntime ''constructor''"
    by (simp add: exactRuntime_def objectPrototypeNames_def)
  moreover have "baselines (watching [(7, True)] Map.empty) ''constructor'' = None"
    by (simp add: watching_fields)
  ultimately show ?thesis
    using checkSymbol_inherited [of "watching [(7, True)] Map.empty" "''constructor''"
            exactRuntime clockIo "entryAt p 1700000000000 ''coincap''" 1700000000000]
    by (simp add: clockIo_def)
qed

lemma checkSymbol_other:
  assumes "ticker \<noteq> s" and "checkSymbol r io s currentData w aa = (evs, w', aa')"
  shows "baselines aa' ticker = baselines aa ticker \<and> (\<forall>e \<in> set evs. \<not> aboutSymbol ticker e)"
proof -
  obtain now w1 where clock: "date_now io w = (now, w1)"
    by (cases "date_now io w")
  show ?thesis
  proof (cases "baselines aa s")
    case None
    then show ?thesis
      using assms clock by (auto simp: checkSymbol_def Let_def split: if_splits)
  next
    case (Some b)
    let ?m = "VolatilityAlert s
                (positive (priceChangePercent r (crypto_data.price currentData) (lastAlertPrice b)))
                (crypto_data.price currentData) (lastAlertPrice b)"
    have "\<forall>e \<in> set (fst (broadcast io ?m (enabled aa) w1)). \<not> aboutSymbol ticker e"
      using broadcast_shape [of io ?m "enabled aa" w1] assms(1) by auto
    then show ?thesis
      using assms clock Some
      by (auto simp: checkSymbol_def Let_def split: if_splits prod.splits)
  qed
qed

lemma volatilityLoop_other:
  assumes "ticker \<notin> set xs" and "volatilityLoop r io realtime xs w aa = (evs, w', aa')"
  shows "baselines aa' ticker = baselines aa ticker \<and> (\<forall>e \<in> set evs. \<not> aboutSymbol ticker e)"
  using assms
proof (induction xs arbitrary: w aa evs w' aa')
  case Nil
  then show ?case by simp
next
  case (Cons s rest)
  show ?case
  proof (cases "map_of realtime s")
    case None
    then show ?thesis
      using Cons.IH [of w aa evs w' aa'] Cons.prems by simp
  next
    case (Some currentData)
    obtain ev1 w1 aa1 where one: "checkSymbol r io s currentData w aa = (ev1, w1, aa1)"
      by (cases "checkSymbol r io s currentData w aa")
    obtain ev2 w2 aa2 where more: "volatilityLoop r io realtime rest w1 aa1 = (ev2, w2, aa2)"
      by (cases "volatilityLoop r io realtime rest w1 aa1")
    have res: "evs = ev1 @ ev2" "aa' = aa2"
      using Cons.prems(2) Some one more by simp_all
    have "ticker \<noteq> s" "ticker \<notin> set rest"
      using Cons.prems(1) by auto
    then show ?thesis
      using checkSymbol_other [OF \<open>ticker \<noteq> s\<close> one] Cons.IH [OF \<open>ticker \<notin> set rest\<close> more] res
      by auto
  qed
qed

lemma volatilityLoop_append:
  "volatilityLoop r io realtime (xs @ ys) w aa =
     (let (ev1, w1, aa1) = volatilityLoop r io realtime xs w aa;
          (ev2, w2, aa2) = volatilityLoop r io realtime ys w1 aa1
      in (ev1 @ ev2, w2, aa2))"
  by (induction xs arbitrary: w aa) (simp_all add: Let_def split: option.split prod.split)

lemma checkSymbol_about:
  "\<forall>e \<in> set (fst (checkSymbol r io ticker currentData w aa)). aboutSymbol ticker e"
proof -
  obtain now w1 where clock: "date_now io w = (now, w1)"
    by (cases "date_now io w")
  show ?thesis
  proof (cases "baselines aa ticker")
    case None
    then show ?thesis
      using clock by (simp add: checkSymbol_def Let_def)
  next
    case (Some b)
    let ?m = "VolatilityAlert ticker
                (positive (priceChangePercent r (crypto_data.price currentData) (lastAlertPrice b)))
                (crypto_data.price currentData) (lastAlertPrice b)"
    obtain evs w2 where sent: "broadcast io ?m (enabled aa) w1 = (evs, w2)"
      by (cases "broadcast io ?m (enabled aa) w1")
    have "\<forall>e \<in> set evs. aboutSymbol ticker e"
      using broadcast_shape [of io ?m "enabled aa" w1] sent by auto
    then show ?thesis
      using clock Some sent by (simp add: checkSymbol_def Let_def)
  qed
qed

text \<open>
  A whole run of \<open>checkAutoVolatilityAlerts\<close> treats a symbol of the table exactly as the
  loop body does, in the state the loop has reached when it comes to the symbol: the
  baseline of the symbol is the one the body leaves, and the messages about the symbol are
  the ones the body sends. So what is proved of the loop body holds of whole runs.
\<close>

lemma cycle_reaches_symbol:
  assumes "distinct (map fst realtime)"
    and "realtime = pre @ (ticker, currentData) # post"
    and "volatilityLoop r io realtime (map fst pre) w aa = (ev0, w0, aa0)"
    and "checkSymbol r io ticker currentData w0 aa0 = (ev1, w1, aa1)"
    and "checkAutoVolatilityAlerts r io realtime w aa = (evs, w', aa')"
  shows "baselines aa0 ticker = baselines aa ticker \<and>
         baselines aa' ticker = baselines aa1 ticker \<and>
         filter (aboutSymbol ticker) evs = ev1"
proof -
  have keys: "map fst realtime = map fst pre @ ticker # map fst post"
    using assms(2) by simp
  have notpre: "ticker \<notin> set (map fst pre)" and notpost: "ticker \<notin> set (map fst post)"
    using assms(1) keys by auto
  have found: "map_of realtime ticker = Some currentData"
  proof (rule map_of_is_SomeI [OF assms(1)])
    show "(ticker, currentData) \<in> set realtime"
      using assms(2) by simp
  qed
  note before = volatilityLoop_other [OF notpre assms(3)]
  obtain ev2 w2 aa2 where after:
    "volatilityLoop r io realtime (map fst post) w1 aa1 = (ev2, w2, aa2)"
    by (cases "volatilityLoop r io realtime (map fst post) w1 aa1")
  note behind = volatilityLoop_other [OF notpost after]
  have whole: "checkAutoVolatilityAlerts r io realtime w aa = (ev0 @ ev1 @ ev2, w2, aa2)"
    using assms(3,4) after found
    by (simp add: checkAutoVolatilityAlerts_def keys volatilityLoop_append Let_def)
  have mine: "\<forall>e \<in> set ev1. aboutSymbol ticker e"
    using checkSymbol_about [of r io ticker currentData w0 aa0] assms(4) by simp
  have "filter (aboutSymbol ticker) (ev0 @ ev1 @ ev2) = ev1"
    using before behind mine by (simp add: filter_empty_conv filter_id_conv)
  then show ?thesis
    using whole assms(5) before behind by simp
qed

text \<open>
  C8, as amended. In one run of \<open>checkAutoVolatilityAlerts\<close>, a symbol of the realtime table
  that has no baseline, and whose name is not one every object inherits, gets a baseline:
  \<open>price\<close> and \<open>lastAlertPrice\<close> are the current price, \<open>timestamp\<close> is the clock reading
  taken when the loop reaches the symbol, and \<open>lastAlertTime\<close> is 0. No volatility message
  about the symbol is sent in that run. The keys of the table are distinct, as the keys of
  a \<open>Map\<close> are.
\<close>

theorem first_sight_seeds:
  assumes "distinct (map fst realtime)"
    and "realtime = pre @ (ticker, currentData) # post"
    and "baselines aa ticker = None"
    and "\<not> inheritedName r ticker"
  shows
    "(let reached = fst (snd (volatilityLoop r io realtime (map fst pre) w aa));
          (evs, w', aa') = checkAutoVolatilityAlerts r io realtime w aa
      in baselines aa' ticker =
           Some \<lparr>baseline.price = crypto_data.price currentData,
                 timestamp = fst (date_now io reached),
                 lastAlertPrice = crypto_data.price currentData,
                 lastAlertTime = 0\<rparr> \<and>
         (\<forall>e \<in> set evs. \<not> aboutSymbol ticker e))"
proof -
  have keys: "map fst realtime = map fst pre @ ticker # map fst post"
    using assms(2) by simp
  have notpre: "ticker \<notin> set (map fst pre)" and notpost: "ticker \<notin> set (map fst post)"
    using assms(1) keys by auto
  have found: "map_of realtime ticker = Some currentData"
  proof (rule map_of_is_SomeI [OF assms(1)])
    show "(ticker, currentData) \<in> set realtime"
      using assms(2) by simp
  qed
  obtain ev0 w0 aa0 where before:
    "volatilityLoop r io realtime (map fst pre) w aa = (ev0, w0, aa0)"
    by (cases "volatilityLoop r io realtime (map fst pre) w aa")
  have unseen: "baselines aa0 ticker = None" and quiet0: "\<forall>e \<in> set ev0. \<not> aboutSymbol ticker e"
    using volatilityLoop_other [OF notpre before] assms(3) by simp_all
  let ?seeded = "aa0\<lparr>baselines := (baselines aa0)(ticker \<mapsto>
                    \<lparr>baseline.price = crypto_data.price currentData,
                     timestamp = fst (date_now io w0),
                     lastAlertPrice = crypto_data.price currentData,
                     lastAlertTime = 0\<rparr>)\<rparr>"
  have step: "checkSymbol r io ticker currentData w0 aa0 = ([], snd (date_now io w0), ?seeded)"
    using checkSymbol_seed [OF unseen assms(4)] .
  obtain ev2 w2 aa2 where after:
    "volatilityLoop r io realtime (map fst post) (snd (date_now io w0)) ?seeded = (ev2, w2, aa2)"
    by (cases "volatilityLoop r io realtime (map fst post) (snd (date_now io w0)) ?seeded")
  have kept: "baselines aa2 ticker = baselines ?seeded ticker"
    and quiet2: "\<forall>e \<in> set ev2. \<not> aboutSymbol ticker e"
    using volatilityLoop_other [OF notpost after] by simp_all
  have whole: "checkAutoVolatilityAlerts r io realtime w aa = (ev0 @ ev2, w2, aa2)"
    using before step after found
    by (simp add: checkAutoVolatilityAlerts_def keys volatilityLoop_append Let_def)
  show ?thesis
    using whole before kept quiet0 quiet2 by (auto simp: Let_def)
qed

text \<open>
  C8, witness: \<open>ETH\<close> has a baseline and \<open>BTC\<close> has none; \<open>BTC\<close> is seeded and nothing is
  sent.
\<close>

theorem first_sight_seeds_witness:
  "(let (evs, w', aa') =
          checkAutoVolatilityAlerts exactRuntime clockIo
            [(''ETH'', entryAt 3000 1700000000000 ''cryptocompare''),
             (''BTC'', entryAt 100 1700000000000 ''cryptocompare'')]
            1700000000000 (watching [(7, True)] [''ETH'' \<mapsto> baselineAt 3000 0])
    in baselines aa' ''BTC'' = Some (baselineAt 100 0) \<and> evs = [])"
proof -
  have keys: "distinct (map fst [(''ETH'', entryAt 3000 1700000000000 ''cryptocompare''),
                                 (''BTC'', entryAt 100 1700000000000 ''cryptocompare'')])"
    by simp
  have split: "[(''ETH'', entryAt 3000 1700000000000 ''cryptocompare''),
                (''BTC'', entryAt 100 1700000000000 ''cryptocompare'')]
               = [(''ETH'', entryAt 3000 1700000000000 ''cryptocompare'')]
                 @ (''BTC'', entryAt 100 1700000000000 ''cryptocompare'') # []"
    by simp
  have unseen: "baselines (watching [(7, True)] [''ETH'' \<mapsto> baselineAt 3000 0]) ''BTC'' = None"
    by (simp add: watching_fields)
  show ?thesis
    using first_sight_seeds [OF keys split unseen exactRuntime_BTC, of clockIo 1700000000000]
    by (simp add: checkAutoVolatilityAlerts_def checkSymbol_def clockIo_def watching_fields
        baselineAt_def entryAt_def exactRuntime_change exactRuntime_BTC Let_def)
qed

text \<open>
  C8, counterexample. The claim as written has the time of the last alert seeded with the
  current time. Seeding \<open>BTC\<close> at 1700000000000 leaves \<open>lastAlertTime\<close> at 0.
\<close>

theorem seed_time_counterexample:
  "map_option lastAlertTime
     (baselines (snd (snd (checkAutoVolatilityAlerts exactRuntime clockIo
                             [(''BTC'', entryAt 100 1700000000000 ''cryptocompare'')]
                             1700000000000 (watching [(7, True)] Map.empty)))) ''BTC'')
   \<noteq> Some (fst (date_now clockIo 1700000000000))"
  by (simp add: checkAutoVolatilityAlerts_def checkSymbol_def clockIo_def watching_fields
      entryAt_def exactRuntime_BTC Let_def)

text \<open>
  What the zero means: the cooldown does not hold back the first alert. One second after
  a seeding at 128 a move to 133 fires.
\<close>

lemma first_alert_not_delayed:
  "fst (checkSymbol exactRuntime clockIo ''BTC'' (entryAt 133 1700000001000 ''cryptocompare'')
          1700000001000 (watching [(7, True)] [''BTC'' \<mapsto> baselineAt 128 0]))
     = [Broadcast 7 (VolatilityAlert ''BTC'' True 133 128) True]"
  by (simp add: checkSymbol_def clockIo_def watching_fields baselineAt_def entryAt_def
      exactRuntime_change Let_def)

section \<open>Manual alerts\<close>

subsection \<open>The crossing rule\<close>

text \<open>
  C4, as amended. For an active alert and a price the resolver returned, the alert is
  triggered, and notified once, exactly when the target is above the creation price and
  the price has reached it, or the target is below the creation price and the price has
  fallen to it. An alert whose target equals its creation price satisfies neither
  alternative: it stays as it is, at every price.
\<close>

theorem crossing_rule:
  assumes "status a = Active"
    and "getCached (symbol a) True w = (Inr (Some currentData), w1)"
  shows
    "(let current = currentPriceOf currentData;
          (evs, w', a') = checkAlert io getCached chatId i a w;
          crossed = ((targetPrice a > currentPrice a \<and> current \<ge> targetPrice a) \<or>
                     (targetPrice a < currentPrice a \<and> current \<le> targetPrice a))
      in (status a' = Triggered \<longleftrightarrow> crossed) \<and>
         notifications chatId i evs = (if crossed then 1 else 0) \<and>
         (targetPrice a = currentPrice a \<longrightarrow> a' = a \<and> evs = [Evaluate chatId i]))"
  using assms
  by (auto simp: checkAlert_def shouldTrigger_def notifications_def Let_def split: prod.splits)

text \<open>
  C4, witness: the alert set at its own creation price stays active at that price; the
  target of 60000 set at 50000 stays active at 59999 and triggers at 60000.
\<close>

theorem crossing_rule_witness:
  "checkAlert clockIo (priceIs 100) 1 0 flatAlert 1700000030000
     = ([Evaluate 1 0], 1700000030000, flatAlert) \<and>
   checkAlert clockIo (priceIs 59999) 1 0 risingAlert 1700000030000
     = ([Evaluate 1 0], 1700000030000, risingAlert) \<and>
   checkAlert clockIo (priceIs 60000) 1 0 risingAlert 1700000030000
     = ([Evaluate 1 0, Notify 1 0 (TargetAlert firedAlert) True], 1700000030000, firedAlert)"
proof -
  have active: "status flatAlert = Active"
    by (simp add: flatAlert_def newAlert_def)
  have answer: "priceIs 100 (symbol flatAlert) True 1700000030000
                  = (Inr (Some (Fresh \<lparr>crypto_data.price = 100, change24h = None,
                                        marketCap = None, volume24h = None\<rparr>)), 1700000030000)"
    by (simp add: priceIs_def)
  have flat: "checkAlert clockIo (priceIs 100) 1 0 flatAlert 1700000030000
                = ([Evaluate 1 0], 1700000030000, flatAlert)"
    using crossing_rule [where getCached = "priceIs 100" and io = clockIo and chatId = 1 and i = 0,
            OF active answer]
    by (simp add: checkAlert_def shouldTrigger_def priceIs_def currentPriceOf_def flatAlert_def
        newAlert_def Let_def)
  have below: "checkAlert clockIo (priceIs 59999) 1 0 risingAlert 1700000030000
                 = ([Evaluate 1 0], 1700000030000, risingAlert)"
    by (simp add: checkAlert_def shouldTrigger_def priceIs_def currentPriceOf_def
        risingAlert_def newAlert_def Let_def)
  have reached: "checkAlert clockIo (priceIs 60000) 1 0 risingAlert 1700000030000
                   = ([Evaluate 1 0, Notify 1 0 (TargetAlert firedAlert) True], 1700000030000,
                      firedAlert)"
    by (simp add: checkAlert_def shouldTrigger_def priceIs_def currentPriceOf_def clockIo_def
        firedAlert_def risingAlert_def newAlert_def Let_def)
  show ?thesis
    using flat below reached by simp
qed

text \<open>
  C4, counterexample. The claim as written has an alert whose target equals its creation
  price trigger on the next cycle that observes any price. Such an alert, created by the
  \<open>/alert\<close> handler at price 100 with target 100, is not triggered by a cycle that
  observes 100, nor 99, nor 101.
\<close>

theorem equal_target_counterexample:
  "status (snd (snd (checkAlert clockIo (priceIs 100) 1 0
                       (newAlert ''BTC'' 100 100 1700000000000 1700000000000) 1700000030000)))
     \<noteq> Triggered \<and>
   status (snd (snd (checkAlert clockIo (priceIs 99) 1 0
                       (newAlert ''BTC'' 100 100 1700000000000 1700000000000) 1700000030000)))
     \<noteq> Triggered \<and>
   status (snd (snd (checkAlert clockIo (priceIs 101) 1 0
                       (newAlert ''BTC'' 100 100 1700000000000 1700000000000) 1700000030000)))
     \<noteq> Triggered"
  by (simp add: checkAlert_def shouldTrigger_def priceIs_def currentPriceOf_def newAlert_def
      Let_def)

subsection \<open>At most one notification for an alert\<close>

lemma notifications_append [simp]:
  "notifications c i (xs @ ys) = notifications c i xs + notifications c i ys"
  by (simp add: notifications_def)

lemma notifications_Nil [simp]: "notifications c i [] = 0"
  by (simp add: notifications_def)

lemma notifies_concerns: "notifies c i e \<Longrightarrow> concerns c i e"
  by (cases e) simp_all

lemma notifications_unconcerned:
  "\<forall>e \<in> set evs. \<not> concerns c i e \<Longrightarrow> notifications c i evs = 0"
  by (auto simp: notifications_def filter_empty_conv dest: notifies_concerns)

lemma checkAlert_effect:
  assumes "checkAlert io getCached c i a w = (evs, w', a')" and "status a = Active"
  shows "(\<forall>e \<in> set evs. \<forall>c' j. concerns c' j e \<longrightarrow> c' = c \<and> j = i) \<and>
         notifications c i evs \<le> spent (Some a')"
  using assms
  by (auto simp: checkAlert_def notifications_def spent_def Let_def
           split: prod.splits sum.splits option.splits if_splits)

text \<open>
  The loop over the filtered alerts, when the positions are distinct and the alerts at
  them are active, as they are right after the filter: the list keeps its length, every
  event carries one of the positions, a notification is paid for by a status change, and
  an alert that is not at one of the positions is not touched.
\<close>

lemma checkFiltered_effect:
  assumes "checkFiltered io getCached c ps xs w = (evs, w', xs')"
    and "distinct ps"
    and "\<forall>i \<in> set ps. i < length xs \<and> status (xs ! i) = Active"
  shows "length xs' = length xs \<and>
         (\<forall>e \<in> set evs. \<forall>c' j. concerns c' j e \<longrightarrow> c' = c \<and> j \<in> set ps) \<and>
         (\<forall>j < length xs. notifications c j evs + spent (Some (xs ! j)) \<le> spent (Some (xs' ! j))) \<and>
         (\<forall>j < length xs. j \<notin> set ps \<longrightarrow> xs' ! j = xs ! j)"
  using assms
proof (induction ps arbitrary: xs w evs w' xs')
  case Nil
  then show ?case by simp
next
  case (Cons i rest)
  have ilen: "i < length xs" and iact: "status (xs ! i) = Active"
    using Cons.prems(3) by simp_all
  have inot: "i \<notin> set rest" and drest: "distinct rest"
    using Cons.prems(2) by simp_all
  obtain ev1 w1 a' where one: "checkAlert io getCached c i (xs ! i) w = (ev1, w1, a')"
    by (cases "checkAlert io getCached c i (xs ! i) w")
  obtain ev2 w2 xs2 where more:
    "checkFiltered io getCached c rest (xs[i := a']) w1 = (ev2, w2, xs2)"
    by (cases "checkFiltered io getCached c rest (xs[i := a']) w1")
  have res: "evs = ev1 @ ev2" "xs' = xs2"
    using Cons.prems(1) one more by simp_all
  have still: "\<forall>k \<in> set rest. k < length (xs[i := a']) \<and> status (xs[i := a'] ! k) = Active"
    using Cons.prems(3) inot by (auto simp: nth_list_update)
  note head = checkAlert_effect [OF one iact]
  note tail = Cons.IH [OF more drest still]
  have tag1: "\<forall>e \<in> set ev1. \<forall>c' j. concerns c' j e \<longrightarrow> c' = c \<and> j = i"
    using head by blast
  have tag2: "\<forall>e \<in> set ev2. \<forall>c' j. concerns c' j e \<longrightarrow> c' = c \<and> j \<in> set rest"
    using tail by blast
  have len: "length xs' = length xs"
    using res tail by simp
  have tags: "\<forall>e \<in> set evs. \<forall>c' j. concerns c' j e \<longrightarrow> c' = c \<and> j \<in> set (i # rest)"
    using res tag1 tag2 by fastforce
  have at_i: "xs2 ! i = a'"
    using tail inot ilen by simp
  have count: "notifications c j evs + spent (Some (xs ! j)) \<le> spent (Some (xs' ! j))"
    if "j < length xs" for j
  proof (cases "j = i")
    case True
    have "\<forall>e \<in> set ev2. \<not> concerns c i e"
      using tag2 inot by blast
    then have "notifications c i ev2 = 0"
      by (rule notifications_unconcerned)
    moreover have "spent (Some (xs ! i)) = 0"
      using iact by (simp add: spent_def)
    ultimately show ?thesis
      using True res head at_i by simp
  next
    case False
    have "\<forall>e \<in> set ev1. \<not> concerns c j e"
      using tag1 False by blast
    then have "notifications c j ev1 = 0"
      by (rule notifications_unconcerned)
    moreover have "notifications c j ev2 + spent (Some (xs[i := a'] ! j)) \<le> spent (Some (xs2 ! j))"
      using tail that by simp
    ultimately show ?thesis
      using False res by simp
  qed
  have keep: "xs' ! j = xs ! j" if "j < length xs" and "j \<notin> set (i # rest)" for j
  proof -
    have "xs2 ! j = xs[i := a'] ! j"
      using tail that by simp
    then show ?thesis
      using that res by simp
  qed
  show ?case
    using len tags count keep by blast
qed

lemma activePositions_facts:
  "distinct (activePositions xs)"
  "\<forall>i \<in> set (activePositions xs). i < length xs \<and> status (xs ! i) = Active"
  "j < length xs \<Longrightarrow> status (xs ! j) = Triggered \<Longrightarrow> j \<notin> set (activePositions xs)"
  by (simp_all add: activePositions_def)

text \<open>
  One chat, filtered and looped over without interruption: as above, and a triggered
  alert is passed over.
\<close>

lemma checkUserAlerts_effect:
  assumes "checkUserAlerts io getCached c xs w = (evs, w', xs')"
  shows "length xs' = length xs \<and>
         (\<forall>e \<in> set evs. \<forall>c' j. concerns c' j e \<longrightarrow> c' = c \<and> j < length xs) \<and>
         (\<forall>j < length xs. notifications c j evs + spent (Some (xs ! j)) \<le> spent (Some (xs' ! j))) \<and>
         (\<forall>j < length xs. status (xs ! j) = Triggered \<longrightarrow>
              xs' ! j = xs ! j \<and> (\<forall>e \<in> set evs. \<not> concerns c j e))"
proof -
  have run: "checkFiltered io getCached c (activePositions xs) xs w = (evs, w', xs')"
    using assms by (simp add: checkUserAlerts_def)
  note eff = checkFiltered_effect [OF run activePositions_facts(1) activePositions_facts(2)]
  have tags: "\<forall>e \<in> set evs. \<forall>c' j. concerns c' j e \<longrightarrow> c' = c \<and> j < length xs"
    using eff activePositions_facts(2) [of xs] by blast
  have keep: "xs' ! j = xs ! j \<and> (\<forall>e \<in> set evs. \<not> concerns c j e)"
    if "j < length xs" and "status (xs ! j) = Triggered" for j
  proof -
    have "j \<notin> set (activePositions xs)"
      using that by (rule activePositions_facts(3))
    then show ?thesis
      using eff that(1) by blast
  qed
  show ?thesis
    using eff tags keep by blast
qed

lemma visit_effect:
  assumes "pa d = Some xs" and "checkUserAlerts io getCached d xs w = (ev1, w1, xs')"
  shows "notifications c i ev1 + spent (alertAt pa c i) \<le> spent (alertAt (pa(d \<mapsto> xs')) c i) \<and>
         (\<forall>a. alertAt pa c i = Some a \<and> status a = Triggered \<longrightarrow>
              alertAt (pa(d \<mapsto> xs')) c i = Some a \<and> (\<forall>e \<in> set ev1. \<not> concerns c i e))"
proof -
  note loop = checkUserAlerts_effect [OF assms(2)]
  have len: "length xs' = length xs"
    using loop by blast
  have tags: "\<forall>e \<in> set ev1. \<forall>c' j. concerns c' j e \<longrightarrow> c' = d \<and> j < length xs"
    using loop by blast
  show ?thesis
  proof (cases "d = c \<and> i < length xs")
    case True
    have "notifications c i ev1 + spent (Some (xs ! i)) \<le> spent (Some (xs' ! i))"
      using loop True by blast
    moreover have "status (xs ! i) = Triggered \<longrightarrow>
                     xs' ! i = xs ! i \<and> (\<forall>e \<in> set ev1. \<not> concerns c i e)"
      using loop True by blast
    ultimately show ?thesis
      using True assms(1) len by (auto simp: alertAt_def)
  next
    case False
    have quiet: "\<forall>e \<in> set ev1. \<not> concerns c i e"
      using tags False by blast
    have same: "spent (alertAt (pa(d \<mapsto> xs')) c i) = spent (alertAt pa c i)"
      and none: "\<forall>a. alertAt pa c i = Some a \<longrightarrow> alertAt (pa(d \<mapsto> xs')) c i = Some a"
      using False assms(1) len by (auto simp: alertAt_def)
    show ?thesis
      using notifications_unconcerned [OF quiet] quiet same none by simp
  qed
qed

lemma checkChats_effect:
  assumes "checkChats io getCached cs w pa = (evs, w', pa')"
  shows "notifications c i evs + spent (alertAt pa c i) \<le> spent (alertAt pa' c i) \<and>
         (\<forall>a. alertAt pa c i = Some a \<and> status a = Triggered \<longrightarrow>
              alertAt pa' c i = Some a \<and> (\<forall>e \<in> set evs. \<not> concerns c i e))"
  using assms
proof (induction cs arbitrary: w pa evs w' pa')
  case Nil
  then show ?case by simp
next
  case (Cons d rest)
  show ?case
  proof (cases "pa d")
    case None
    then have "checkChats io getCached rest w pa = (evs, w', pa')"
      using Cons.prems by simp
    then show ?thesis
      by (rule Cons.IH)
  next
    case (Some xs)
    obtain ev1 w1 xs' where one: "checkUserAlerts io getCached d xs w = (ev1, w1, xs')"
      by (cases "checkUserAlerts io getCached d xs w")
    obtain ev2 w2 pa2 where more:
      "checkChats io getCached rest w1 (pa(d \<mapsto> xs')) = (ev2, w2, pa2)"
      by (cases "checkChats io getCached rest w1 (pa(d \<mapsto> xs'))")
    have res: "evs = ev1 @ ev2" "pa' = pa2"
      using Cons.prems Some one more by simp_all
    note head = visit_effect [where pa = pa and d = d and c = c and i = i, OF Some one]
    note tail = Cons.IH [of w1 "pa(d \<mapsto> xs')" ev2 w2 pa2, OF more]
    have "notifications c i ev1 + spent (alertAt pa c i) \<le> spent (alertAt (pa(d \<mapsto> xs')) c i)"
      using head by blast
    moreover have "notifications c i ev2 + spent (alertAt (pa(d \<mapsto> xs')) c i)
                     \<le> spent (alertAt pa2 c i)"
      using tail by blast
    ultimately have count: "notifications c i evs + spent (alertAt pa c i) \<le> spent (alertAt pa' c i)"
      using res by simp
    have keep: "alertAt pa' c i = Some a \<and> (\<forall>e \<in> set evs. \<not> concerns c i e)"
      if "alertAt pa c i = Some a \<and> status a = Triggered" for a
    proof -
      have mid: "alertAt (pa(d \<mapsto> xs')) c i = Some a" and q1: "\<forall>e \<in> set ev1. \<not> concerns c i e"
        using head that by blast+
      have "alertAt pa2 c i = Some a \<and> (\<forall>e \<in> set ev2. \<not> concerns c i e)"
        using tail mid that by blast
      then show ?thesis
        using res q1 by auto
    qed
    show ?thesis
      using count keep by blast
  qed
qed

lemma checkSymbol_unconcerned:
  "\<forall>e \<in> set (fst (checkSymbol r io s d w aa)). \<not> concerns c i e"
proof -
  obtain now w1 where clock: "date_now io w = (now, w1)"
    by (cases "date_now io w")
  show ?thesis
  proof (cases "baselines aa s")
    case None
    then show ?thesis
      using clock by (simp add: checkSymbol_def Let_def)
  next
    case (Some b)
    let ?m = "VolatilityAlert s
                (positive (priceChangePercent r (crypto_data.price d) (lastAlertPrice b)))
                (crypto_data.price d) (lastAlertPrice b)"
    obtain evs w2 where sent: "broadcast io ?m (enabled aa) w1 = (evs, w2)"
      by (cases "broadcast io ?m (enabled aa) w1")
    have "\<forall>e \<in> set evs. \<not> concerns c i e"
      using broadcast_shape [of io ?m "enabled aa" w1] sent by auto
    then show ?thesis
      using clock Some sent by (simp add: checkSymbol_def Let_def)
  qed
qed

lemma volatilityLoop_unconcerned:
  "\<forall>e \<in> set (fst (volatilityLoop r io realtime xs w aa)). \<not> concerns c i e"
proof (induction xs arbitrary: w aa)
  case Nil
  show ?case by simp
next
  case (Cons s rest)
  show ?case
  proof (cases "map_of realtime s")
    case None
    then show ?thesis
      using Cons.IH by simp
  next
    case (Some d)
    obtain ev1 w1 aa1 where one: "checkSymbol r io s d w aa = (ev1, w1, aa1)"
      by (cases "checkSymbol r io s d w aa")
    have "\<forall>e \<in> set ev1. \<not> concerns c i e"
      using checkSymbol_unconcerned [of r io s d w aa c i] one by simp
    then show ?thesis
      using Cons.IH [of w1 aa1] Some one by (auto simp: Let_def split: prod.splits)
  qed
qed

lemma checkAutoVolatilityAlerts_unconcerned:
  "\<forall>e \<in> set (fst (checkAutoVolatilityAlerts r io realtime w aa)). \<not> concerns c i e"
  using volatilityLoop_unconcerned [of r io realtime "map fst realtime" w aa c i]
  by (simp add: checkAutoVolatilityAlerts_def Let_def)

lemma checkAlerts_effect:
  assumes "checkAlerts r io getCached realtime w s = (evs, w', s')"
  shows "notifications c i evs + spent (alertAt (priceAlerts s) c i)
           \<le> spent (alertAt (priceAlerts s') c i) \<and>
         (\<forall>a. alertAt (priceAlerts s) c i = Some a \<and> status a = Triggered \<longrightarrow>
              alertAt (priceAlerts s') c i = Some a \<and> (\<forall>e \<in> set evs. \<not> concerns c i e))"
proof -
  obtain ev1 w1 aa where vol:
    "checkAutoVolatilityAlerts r io realtime w (autoAlerts s) = (ev1, w1, aa)"
    by (cases "checkAutoVolatilityAlerts r io realtime w (autoAlerts s)")
  obtain ev2 w2 pa where chats:
    "checkChats io getCached (chatIds s) w1 (priceAlerts s) = (ev2, w2, pa)"
    by (cases "checkChats io getCached (chatIds s) w1 (priceAlerts s)")
  have res: "evs = ev1 @ ev2" "priceAlerts s' = pa"
    using assms vol chats by (auto simp: checkAlerts_def)
  have quiet: "\<forall>e \<in> set ev1. \<not> concerns c i e"
    using checkAutoVolatilityAlerts_unconcerned [of r io realtime w "autoAlerts s" c i] vol by simp
  show ?thesis
    using checkChats_effect [OF chats, of c i] notifications_unconcerned [OF quiet] quiet res
    by auto
qed

lemma alertMonitoring_effect:
  assumes "alertMonitoring r io getCached getRealtimePrices n w s = (evs, w', s')"
  shows "notifications c i evs + spent (alertAt (priceAlerts s) c i)
           \<le> spent (alertAt (priceAlerts s') c i) \<and>
         (\<forall>a. alertAt (priceAlerts s) c i = Some a \<and> status a = Triggered \<longrightarrow>
              alertAt (priceAlerts s') c i = Some a \<and> (\<forall>e \<in> set evs. \<not> concerns c i e))"
  using assms
proof (induction n arbitrary: w s evs w' s')
  case 0
  then show ?case by simp
next
  case (Suc n)
  obtain ev1 w1 s1 where one: "checkAlerts r io getCached (getRealtimePrices w) w s = (ev1, w1, s1)"
    by (cases "checkAlerts r io getCached (getRealtimePrices w) w s")
  obtain ev2 w2 s2 where more:
    "alertMonitoring r io getCached getRealtimePrices n w1 s1 = (ev2, w2, s2)"
    by (cases "alertMonitoring r io getCached getRealtimePrices n w1 s1")
  have res: "evs = ev1 @ ev2" "s' = s2"
    using Suc.prems one more by simp_all
  note head = checkAlerts_effect [OF one, of c i]
  note tail = Suc.IH [OF more]
  have count: "notifications c i evs + spent (alertAt (priceAlerts s) c i)
                 \<le> spent (alertAt (priceAlerts s') c i)"
    using head tail res by simp
  have keep: "alertAt (priceAlerts s') c i = Some a \<and> (\<forall>e \<in> set evs. \<not> concerns c i e)"
    if "alertAt (priceAlerts s) c i = Some a \<and> status a = Triggered" for a
  proof -
    have mid: "alertAt (priceAlerts s1) c i = Some a" and q1: "\<forall>e \<in> set ev1. \<not> concerns c i e"
      using head that by blast+
    have "alertAt (priceAlerts s2) c i = Some a \<and> (\<forall>e \<in> set ev2. \<not> concerns c i e)"
      using tail mid that by blast
    then show ?thesis
      using res q1 by auto
  qed
  show ?case
    using count keep by blast
qed

lemma spent_le_one: "spent x \<le> 1"
  by (simp add: spent_def split: option.split)

text \<open>
  When no cycle overlaps the next, an alert is notified at most once: over any number of
  cycles run one after the other, from any state, with any resolver, clock and bot, an
  alert is notified at most once, and when it has been notified it is triggered; and an
  alert that is triggered at the start is never handed to the resolver or notified again,
  and stays as it is.
\<close>

lemma serial_cycles_notify_once:
  "(let (evs, w', s') = alertMonitoring r io getCached getRealtimePrices n w s
    in notifications c i evs \<le> 1 \<and>
       (0 < notifications c i evs \<longrightarrow>
          (\<exists>a. alertAt (priceAlerts s') c i = Some a \<and> status a = Triggered)) \<and>
       (\<forall>a. alertAt (priceAlerts s) c i = Some a \<and> status a = Triggered \<longrightarrow>
            alertAt (priceAlerts s') c i = Some a \<and>
            (\<forall>e \<in> set evs. \<not> concerns c i e)))"
proof -
  obtain evs w' s' where run:
    "alertMonitoring r io getCached getRealtimePrices n w s = (evs, w', s')"
    by (cases "alertMonitoring r io getCached getRealtimePrices n w s")
  note eff = alertMonitoring_effect [OF run, of c i]
  have paid: "notifications c i evs \<le> spent (alertAt (priceAlerts s') c i)"
    using eff by simp
  then have once: "notifications c i evs \<le> 1"
    using spent_le_one [of "alertAt (priceAlerts s') c i"] by simp
  have after: "\<exists>a. alertAt (priceAlerts s') c i = Some a \<and> status a = Triggered"
    if "0 < notifications c i evs"
    using paid that by (auto simp: spent_def split: option.splits if_splits)
  show ?thesis
    using run eff once after by auto
qed

text \<open>Three such cycles at a price of 0.5, for the alert with target 0.5 set at 0.25.\<close>

lemma serial_cycles_example:
  "alertMonitoring exactRuntime clockIo (priceIs 0.5) (\<lambda>w. []) 3 1700000030000
       (engineWith [dogeAlert])
     = ([Evaluate 1 0, Notify 1 0 (TargetAlert dogeFired) True], 1700000030000,
        engineWith [dogeFired])"
  by (simp add: eval_nat_numeral checkAlerts_def checkAutoVolatilityAlerts_def engineWith_def
      checkUserAlerts_def activePositions_def upt_rec
      checkAlert_def shouldTrigger_def priceIs_def currentPriceOf_def clockIo_def
      dogeFired_def dogeAlert_def newAlert_def Let_def)

text \<open>
  The two models agree when no call overlaps the next. A call resumed until it has finished,
  with no other call started meanwhile, does what \<open>checkAlerts\<close> does
  (\<open>cycle_without_overlap\<close>), and \<open>n\<close> cycles of \<open>alertMonitoring\<close> are the run of the
  event loop along a schedule \<open>serial\<close> (\<open>serial_cycles_are_runs\<close>).
\<close>

lemma eventLoop_resume:
  assumes "k < length tasks"
    and "resumeTask io getCached (chatIds s) (tasks ! k) w (priceAlerts s) = (ev1, w1, pa, t')"
    and "eventLoop r io getCached grp acts w1 (s\<lparr>priceAlerts := pa\<rparr>) (tasks[k := t'])
           = (ev2, w2, s2, tasks2)"
  shows "eventLoop r io getCached grp (Resume k # acts) w s tasks = (ev1 @ ev2, w2, s2, tasks2)"
  using assms by simp

lemma resumeTask_awaiting:
  assumes "pa c = Some xs" and "i < length xs"
    and "checkAlert io getCached c i (xs ! i) w = (ev1, w1, a')"
  shows "resumeTask io getCached keys (Awaiting c i rest cs) w pa
           = (ev1, w1, pa(c \<mapsto> xs[i := a']),
              case rest of k # rest' \<Rightarrow> Awaiting c k rest' cs
                         | [] \<Rightarrow> enterChats (pa(c \<mapsto> xs[i := a'])) cs)"
  using assms by (simp add: resumeTask_def Let_def)

lemma resume_finished:
  assumes "k < length tasks" and "tasks ! k = Finished"
  shows "eventLoop r io getCached grp (Resume k # acts) w s tasks
           = eventLoop r io getCached grp acts w s tasks"
proof -
  have same: "tasks[k := Finished] = tasks"
    using assms by (metis list_update_id)
  obtain ev2 w2 s2 t2 where cont: "eventLoop r io getCached grp acts w s tasks = (ev2, w2, s2, t2)"
    by (cases "eventLoop r io getCached grp acts w s tasks") auto
  have step: "resumeTask io getCached (chatIds s) (tasks ! k) w (priceAlerts s)
                = ([], w, priceAlerts s, Finished)"
    using assms(2) by (simp add: resumeTask_def)
  have cont': "eventLoop r io getCached grp acts w (s\<lparr>priceAlerts := priceAlerts s\<rparr>)
                 (tasks[k := Finished]) = (ev2, w2, s2, t2)"
    using cont same by simp
  show ?thesis
    using eventLoop_resume [OF assms(1) step cont'] cont by simp
qed

lemma resume_finished_many:
  assumes "k < length tasks" and "tasks ! k = Finished"
  shows "eventLoop r io getCached grp (replicate m (Resume k) @ acts) w s tasks
           = eventLoop r io getCached grp acts w s tasks"
proof (induction m)
  case 0
  show ?case by simp
next
  case (Suc m)
  have "eventLoop r io getCached grp (replicate (Suc m) (Resume k) @ acts) w s tasks
          = eventLoop r io getCached grp (Resume k # (replicate m (Resume k) @ acts)) w s tasks"
    by simp
  also have "\<dots> = eventLoop r io getCached grp (replicate m (Resume k) @ acts) w s tasks"
    by (rule resume_finished [OF assms])
  finally show ?case
    using Suc.IH by simp
qed

lemma resume_filtered:
  assumes "k < length tasks"
    and "tasks ! k = Awaiting c i rest cs"
    and "priceAlerts s = pa"
    and "pa c = Some xs"
    and "\<forall>p \<in> set (i # rest). p < length xs"
    and "checkFiltered io getCached c (i # rest) xs w = (evs, w', xs')"
    and "eventLoop r io getCached grp acts w' (s\<lparr>priceAlerts := pa(c \<mapsto> xs')\<rparr>)
           (tasks[k := enterChats (pa(c \<mapsto> xs')) cs]) = (ev2, w2, s2, t2)"
  shows "eventLoop r io getCached grp (replicate (Suc (length rest)) (Resume k) @ acts) w s tasks
           = (evs @ ev2, w2, s2, t2)"
  using assms
proof (induction rest arbitrary: i xs w s pa tasks evs)
  case Nil
  obtain ev1 w1 a' where one: "checkAlert io getCached c i (xs ! i) w = (ev1, w1, a')"
    by (cases "checkAlert io getCached c i (xs ! i) w")
  have res: "evs = ev1" "w' = w1" "xs' = xs[i := a']"
    using Nil.prems(6) one by simp_all
  have ilen: "i < length xs"
    using Nil.prems(5) by simp
  have step: "resumeTask io getCached (chatIds s) (tasks ! k) w (priceAlerts s)
                = (ev1, w1, pa(c \<mapsto> xs'), enterChats (pa(c \<mapsto> xs')) cs)"
    using resumeTask_awaiting [where pa = pa and c = c and keys = "chatIds s"
            and rest = "[]" and cs = cs, OF Nil.prems(4) ilen one] Nil.prems(2,3) res
    by simp
  have cont: "eventLoop r io getCached grp acts w1 (s\<lparr>priceAlerts := pa(c \<mapsto> xs')\<rparr>)
                (tasks[k := enterChats (pa(c \<mapsto> xs')) cs]) = (ev2, w2, s2, t2)"
    using Nil.prems(7) unfolding \<open>w' = w1\<close> fun_upd_def .
  show ?case
    using eventLoop_resume [OF Nil.prems(1) step cont] res by simp
next
  case (Cons j rest)
  obtain ev1 w1 a' where one: "checkAlert io getCached c i (xs ! i) w = (ev1, w1, a')"
    by (cases "checkAlert io getCached c i (xs ! i) w")
  obtain ev3 w3 xs3 where more:
    "checkFiltered io getCached c (j # rest) (xs[i := a']) w1 = (ev3, w3, xs3)"
    by (cases "checkFiltered io getCached c (j # rest) (xs[i := a']) w1")
  have res: "evs = ev1 @ ev3" "w' = w3" "xs' = xs3"
    using Cons.prems(6) one more by simp_all
  have ilen: "i < length xs"
    using Cons.prems(5) by simp
  define pa1 where "pa1 = pa(c \<mapsto> xs[i := a'])"
  define s1 where "s1 = s\<lparr>priceAlerts := pa1\<rparr>"
  define t1 where "t1 = tasks[k := Awaiting c j rest cs]"
  have step: "resumeTask io getCached (chatIds s) (tasks ! k) w (priceAlerts s)
                = (ev1, w1, pa1, Awaiting c j rest cs)"
    using resumeTask_awaiting [where pa = pa and c = c and keys = "chatIds s"
            and rest = "j # rest" and cs = cs, OF Cons.prems(4) ilen one]
          Cons.prems(2,3)
    by (simp add: pa1_def)
  have k1: "k < length t1" and at1: "t1 ! k = Awaiting c j rest cs"
    using Cons.prems(1) by (simp_all add: t1_def)
  have p1: "priceAlerts s1 = pa1"
    by (simp add: s1_def)
  have c1: "pa1 c = Some (xs[i := a'])"
    by (simp add: pa1_def)
  have in1: "\<forall>p \<in> set (j # rest). p < length (xs[i := a'])"
    using Cons.prems(5) by simp
  have more1: "checkFiltered io getCached c (j # rest) (xs[i := a']) w1 = (ev3, w', xs')"
    using more res by simp
  have cont1: "eventLoop r io getCached grp acts w' (s1\<lparr>priceAlerts := pa1(c \<mapsto> xs')\<rparr>)
                 (t1[k := enterChats (pa1(c \<mapsto> xs')) cs]) = (ev2, w2, s2, t2)"
  proof -
    have fold: "(\<lambda>a. if a = c then Some xs' else pa a) = pa(c \<mapsto> xs')"
      by (rule ext) simp
    have over: "pa1(c \<mapsto> xs') = pa(c \<mapsto> xs')"
      by (simp add: pa1_def)
    have "eventLoop r io getCached grp acts w' (s\<lparr>priceAlerts := pa(c \<mapsto> xs')\<rparr>)
            (tasks[k := enterChats (pa(c \<mapsto> xs')) cs]) = (ev2, w2, s2, t2)"
      using Cons.prems(7) unfolding fold .
    then show ?thesis
      unfolding over by (simp add: s1_def t1_def)
  qed
  have tail: "eventLoop r io getCached grp (replicate (Suc (length rest)) (Resume k) @ acts)
                w1 s1 t1 = (ev3 @ ev2, w2, s2, t2)"
    by (rule Cons.IH [OF k1 at1 p1 c1 in1 more1 cont1])
  have tail': "eventLoop r io getCached grp (replicate (Suc (length rest)) (Resume k) @ acts)
                w1 (s\<lparr>priceAlerts := pa1\<rparr>) (tasks[k := Awaiting c j rest cs])
               = (ev3 @ ev2, w2, s2, t2)"
    using tail by (simp add: s1_def t1_def)
  have "eventLoop r io getCached grp
          (Resume k # (replicate (Suc (length rest)) (Resume k) @ acts)) w s tasks
        = (ev1 @ (ev3 @ ev2), w2, s2, t2)"
    by (rule eventLoop_resume [OF Cons.prems(1) step tail'])
  then show ?case
    using res by simp
qed


lemma resume_chats:
  assumes "k < length tasks"
    and "tasks ! k = enterChats pa cs"
    and "priceAlerts s = pa"
    and "checkChats io getCached cs w pa = (evs, w', pa')"
  shows "\<exists>n. \<forall>acts ev2 w2 s2 t2.
           eventLoop r io getCached grp acts w' (s\<lparr>priceAlerts := pa'\<rparr>) (tasks[k := Finished])
             = (ev2, w2, s2, t2)
           \<longrightarrow> eventLoop r io getCached grp (replicate n (Resume k) @ acts) w s tasks
                 = (evs @ ev2, w2, s2, t2)"
  using assms
proof (induction cs arbitrary: w s pa tasks evs)
  case Nil
  have fin: "tasks ! k = Finished"
    using Nil.prems(2) by simp
  have same: "tasks[k := Finished] = tasks"
    using Nil.prems(1) fin by (metis list_update_id)
  have res: "evs = []" "w' = w" "pa' = pa"
    using Nil.prems(4) by simp_all
  have s_same: "s\<lparr>priceAlerts := pa'\<rparr> = s"
    using Nil.prems(3) res by simp
  have "\<forall>acts ev2 w2 s2 t2.
           eventLoop r io getCached grp acts w' (s\<lparr>priceAlerts := pa'\<rparr>) (tasks[k := Finished])
             = (ev2, w2, s2, t2)
           \<longrightarrow> eventLoop r io getCached grp (replicate 0 (Resume k) @ acts) w s tasks
                 = (evs @ ev2, w2, s2, t2)"
    unfolding same s_same using res by simp
  then show ?case ..
next
  case (Cons c cs)
  show ?case
  proof (cases "pa c")
    case None
    have t: "tasks ! k = enterChats pa cs"
      using Cons.prems(2) None by simp
    have ch: "checkChats io getCached cs w pa = (evs, w', pa')"
      using Cons.prems(4) None by simp
    show ?thesis
      by (rule Cons.IH [OF Cons.prems(1) t Cons.prems(3) ch])
  next
    case (Some xs)
    show ?thesis
    proof (cases "activePositions xs")
      case Nil
      have t: "tasks ! k = enterChats pa cs"
        using Cons.prems(2) Some Nil by simp
      have same: "pa(c \<mapsto> xs) = pa"
        using Some by (rule map_upd_triv)
      have user: "checkUserAlerts io getCached c xs w = ([], w, xs)"
        using Nil by (simp add: checkUserAlerts_def)
      have ch: "checkChats io getCached cs w pa = (evs, w', pa')"
      proof -
        obtain e v p where rest: "checkChats io getCached cs w pa = (e, v, p)"
          by (cases "checkChats io getCached cs w pa")
        have "checkChats io getCached (c # cs) w pa = (e, v, p)"
          using Some user rest same by simp
        then show ?thesis
          using Cons.prems(4) rest by simp
      qed
      show ?thesis
        by (rule Cons.IH [OF Cons.prems(1) t Cons.prems(3) ch])
    next
      case (Cons i rest)
      obtain ev1 w1 xs1 where one:
        "checkFiltered io getCached c (i # rest) xs w = (ev1, w1, xs1)"
        by (cases "checkFiltered io getCached c (i # rest) xs w")
      define pa1 where "pa1 = pa(c \<mapsto> xs1)"
      define s1 where "s1 = s\<lparr>priceAlerts := pa1\<rparr>"
      define t1 where "t1 = tasks[k := enterChats pa1 cs]"
      obtain ev3 w3 pa3 where more: "checkChats io getCached cs w1 pa1 = (ev3, w3, pa3)"
        by (cases "checkChats io getCached cs w1 pa1")
      have user: "checkUserAlerts io getCached c xs w = (ev1, w1, xs1)"
        using Cons one by (simp add: checkUserAlerts_def)
      have whole: "checkChats io getCached (c # cs) w pa = (ev1 @ ev3, w3, pa3)"
        using Some user more by (simp add: pa1_def)
      have res: "evs = ev1 @ ev3" "w' = w3" "pa' = pa3"
        using Cons.prems(4) whole by simp_all
      have await: "tasks ! k = Awaiting c i rest cs"
        using Cons.prems(2) Some Cons by simp
      have inside: "\<forall>p \<in> set (i # rest). p < length xs"
        using activePositions_facts(2) [of xs] Cons by auto
      have k1: "k < length t1"
        using Cons.prems(1) by (simp add: t1_def)
      have at1: "t1 ! k = enterChats pa1 cs"
        using Cons.prems(1) by (simp add: t1_def)
      have p1: "priceAlerts s1 = pa1"
        by (simp add: s1_def)
      have more1: "checkChats io getCached cs w1 pa1 = (ev3, w', pa')"
        using more res by simp
      obtain n where rest_n: "\<forall>acts ev2 w2 s2 t2.
           eventLoop r io getCached grp acts w' (s1\<lparr>priceAlerts := pa'\<rparr>) (t1[k := Finished])
             = (ev2, w2, s2, t2)
           \<longrightarrow> eventLoop r io getCached grp (replicate n (Resume k) @ acts) w1 s1 t1
                 = (ev3 @ ev2, w2, s2, t2)"
        using Cons.IH [OF k1 at1 p1 more1] by blast
      have s_over: "s1\<lparr>priceAlerts := pa'\<rparr> = s\<lparr>priceAlerts := pa'\<rparr>"
        by (simp add: s1_def)
      have t_over: "t1[k := Finished] = tasks[k := Finished]"
        by (simp add: t1_def)
      have "eventLoop r io getCached grp
              (replicate (Suc (length rest) + n) (Resume k) @ acts) w s tasks
              = (evs @ ev2, w2, s2, t2)"
        if cont: "eventLoop r io getCached grp acts w' (s\<lparr>priceAlerts := pa'\<rparr>)
                    (tasks[k := Finished]) = (ev2, w2, s2, t2)"
        for acts ev2 w2 s2 t2
      proof -
        have cont1: "eventLoop r io getCached grp acts w' (s1\<lparr>priceAlerts := pa'\<rparr>)
                       (t1[k := Finished]) = (ev2, w2, s2, t2)"
          unfolding s_over t_over by (rule cont)
        have tail: "eventLoop r io getCached grp (replicate n (Resume k) @ acts) w1 s1 t1
                      = (ev3 @ ev2, w2, s2, t2)"
          using rest_n cont1 by blast
        have tail': "eventLoop r io getCached grp (replicate n (Resume k) @ acts) w1
                       (s\<lparr>priceAlerts := pa(c \<mapsto> xs1)\<rparr>)
                       (tasks[k := enterChats (pa(c \<mapsto> xs1)) cs]) = (ev3 @ ev2, w2, s2, t2)"
          using tail unfolding s1_def t1_def pa1_def .
        have "eventLoop r io getCached grp
                (replicate (Suc (length rest)) (Resume k) @ (replicate n (Resume k) @ acts))
                w s tasks = (ev1 @ (ev3 @ ev2), w2, s2, t2)"
          by (rule resume_filtered [OF Cons.prems(1) await Cons.prems(3) Some inside one tail'])
        moreover have "replicate (Suc (length rest) + n) (Resume k) @ acts
                = replicate (Suc (length rest)) (Resume k) @ (replicate n (Resume k) @ acts)"
          by (simp only: replicate_add append_assoc)
        ultimately show ?thesis
          using res by simp
      qed
      then show ?thesis
        by blast
    qed
  qed
qed


lemma eventLoop_tick:
  assumes "checkAutoVolatilityAlerts r io (grp w) w (autoAlerts s) = (ev1, w1, aa)"
    and "eventLoop r io getCached grp acts w1 (s\<lparr>autoAlerts := aa\<rparr>) (tasks @ [Started])
           = (ev2, w2, s2, tasks2)"
  shows "eventLoop r io getCached grp (Tick # acts) w s tasks = (ev1 @ ev2, w2, s2, tasks2)"
  using assms by simp

lemma cycle_without_overlap:
  assumes "checkAlerts r io getCached (grp w) w s = (evs, w', s')"
    and "eventLoop r io getCached grp acts w' s' (tasks @ [Finished]) = (ev3, w3, s3, t3)"
  shows "\<exists>n. \<forall>m \<ge> n.
           eventLoop r io getCached grp (Tick # replicate m (Resume (length tasks)) @ acts)
               w s tasks
             = (evs @ ev3, w3, s3, t3)"
proof -
  obtain ev1 w1 aa where vol:
    "checkAutoVolatilityAlerts r io (grp w) w (autoAlerts s) = (ev1, w1, aa)"
    by (cases "checkAutoVolatilityAlerts r io (grp w) w (autoAlerts s)")
  obtain ev2 w2 pa where chats:
    "checkChats io getCached (chatIds s) w1 (priceAlerts s) = (ev2, w2, pa)"
    by (cases "checkChats io getCached (chatIds s) w1 (priceAlerts s)")
  have res: "evs = ev1 @ ev2" "w' = w2" "s' = s\<lparr>autoAlerts := aa, priceAlerts := pa\<rparr>"
    using assms(1) vol chats by (simp_all add: checkAlerts_def)
  define k where "k = length tasks"
  define s1 where "s1 = s\<lparr>autoAlerts := aa\<rparr>"
  define t0 where "t0 = tasks @ [Started]"
  define t1 where "t1 = t0[k := enterChats (priceAlerts s) (chatIds s)]"
  have k0: "k < length t0" and at0: "t0 ! k = Started"
    by (simp_all add: k_def t0_def)
  have k1: "k < length t1" and at1: "t1 ! k = enterChats (priceAlerts s) (chatIds s)"
    using k0 by (simp_all add: t1_def)
  have p1: "priceAlerts s1 = priceAlerts s" and c1: "chatIds s1 = chatIds s"
    by (simp_all add: s1_def)
  have fin: "t1[k := Finished] = tasks @ [Finished]"
    by (simp add: t1_def t0_def k_def)
  have s_fin: "s1\<lparr>priceAlerts := pa\<rparr> = s'"
    using res by (simp add: s1_def)
  have kf: "k < length (tasks @ [Finished])" and atf: "(tasks @ [Finished]) ! k = Finished"
    by (simp_all add: k_def)
  obtain n where run: "\<forall>acts e v s2 t2.
       eventLoop r io getCached grp acts w2 (s1\<lparr>priceAlerts := pa\<rparr>) (t1[k := Finished])
         = (e, v, s2, t2)
       \<longrightarrow> eventLoop r io getCached grp (replicate n (Resume k) @ acts) w1 s1 t1
             = (ev2 @ e, v, s2, t2)"
    using resume_chats [OF k1 at1 p1 chats] by blast
  have "eventLoop r io getCached grp (Tick # replicate m (Resume k) @ acts) w s tasks
          = (evs @ ev3, w3, s3, t3)"
    if "Suc n \<le> m" for m
  proof -
    define d where "d = m - Suc n"
    have m: "m = Suc (n + d)"
      using that by (simp add: d_def)
    have shape: "replicate m (Resume k) @ acts
                   = Resume k # (replicate n (Resume k) @ (replicate d (Resume k) @ acts))"
      unfolding m by (simp add: replicate_add)
    have idle: "eventLoop r io getCached grp (replicate d (Resume k) @ acts) w2 s'
                  (tasks @ [Finished]) = (ev3, w3, s3, t3)"
      using resume_finished_many [OF kf atf, of r io getCached grp d acts w2 s'] assms(2) res(2)
      by simp
    have idle': "eventLoop r io getCached grp (replicate d (Resume k) @ acts) w2
                   (s1\<lparr>priceAlerts := pa\<rparr>) (t1[k := Finished]) = (ev3, w3, s3, t3)"
      unfolding fin s_fin by (rule idle)
    have loop: "eventLoop r io getCached grp
                  (replicate n (Resume k) @ (replicate d (Resume k) @ acts)) w1 s1 t1
                  = (ev2 @ ev3, w3, s3, t3)"
      using run idle' by blast
    have enter: "resumeTask io getCached (chatIds s1) (t0 ! k) w1 (priceAlerts s1)
                   = ([], w1, priceAlerts s1, enterChats (priceAlerts s) (chatIds s))"
      unfolding at0 by (simp add: resumeTask_def p1 c1)
    have s_same: "s1\<lparr>priceAlerts := priceAlerts s1\<rparr> = s1"
      by simp
    have loop': "eventLoop r io getCached grp
                   (replicate n (Resume k) @ (replicate d (Resume k) @ acts))
                   w1 (s1\<lparr>priceAlerts := priceAlerts s1\<rparr>)
                   (t0[k := enterChats (priceAlerts s) (chatIds s)])
                   = (ev2 @ ev3, w3, s3, t3)"
      unfolding s_same using loop unfolding t1_def .
    have resumed: "eventLoop r io getCached grp
                     (Resume k # (replicate n (Resume k) @ (replicate d (Resume k) @ acts)))
                     w1 s1 t0
                     = ([] @ (ev2 @ ev3), w3, s3, t3)"
      by (rule eventLoop_resume [OF k0 enter loop'])
    have resumed': "eventLoop r io getCached grp (replicate m (Resume k) @ acts) w1
                      (s\<lparr>autoAlerts := aa\<rparr>) (tasks @ [Started])
                      = (ev2 @ ev3, w3, s3, t3)"
      unfolding shape using resumed unfolding s1_def t0_def by simp
    have "eventLoop r io getCached grp (Tick # (replicate m (Resume k) @ acts)) w s tasks
            = (ev1 @ (ev2 @ ev3), w3, s3, t3)"
      by (rule eventLoop_tick [OF vol resumed'])
    then show ?thesis
      using res by simp
  qed
  then show ?thesis
    unfolding k_def by blast
qed

lemma serial_cycles_are_runs:
  assumes "alertMonitoring r io getCached grp n w s = (evs, w', s')"
  shows "\<exists>ms. length ms = n \<and>
           eventLoop r io getCached grp (serial (length tasks) ms) w s tasks
             = (evs, w', s', tasks @ replicate n Finished)"
  using assms
proof (induction n arbitrary: w s evs tasks)
  case 0
  have "length ([]::nat list) = 0 \<and>
          eventLoop r io getCached grp (serial (length tasks) []) w s tasks
            = (evs, w', s', tasks @ replicate 0 Finished)"
    using "0.prems" by simp
  then show ?case ..
next
  case (Suc n)
  obtain ev1 w1 s1 where one: "checkAlerts r io getCached (grp w) w s = (ev1, w1, s1)"
    by (cases "checkAlerts r io getCached (grp w) w s")
  obtain ev2 w2 s2 where more: "alertMonitoring r io getCached grp n w1 s1 = (ev2, w2, s2)"
    by (cases "alertMonitoring r io getCached grp n w1 s1")
  have res: "evs = ev1 @ ev2" "w' = w2" "s' = s2"
    using Suc.prems one more by simp_all
  obtain ms where len: "length ms = n"
    and later: "eventLoop r io getCached grp (serial (length (tasks @ [Finished])) ms) w1 s1
                  (tasks @ [Finished])
                  = (ev2, w2, s2, (tasks @ [Finished]) @ replicate n Finished)"
    using Suc.IH [of w1 s1 ev2 "tasks @ [Finished]"] more res by blast
  have later': "eventLoop r io getCached grp (serial (Suc (length tasks)) ms) w1 s1
                  (tasks @ [Finished])
                  = (ev2, w2, s2, (tasks @ [Finished]) @ replicate n Finished)"
    using later by simp
  obtain m where first: "eventLoop r io getCached grp
                           (Tick # replicate m (Resume (length tasks))
                              @ serial (Suc (length tasks)) ms) w s tasks
                           = (ev1 @ ev2, w2, s2, (tasks @ [Finished]) @ replicate n Finished)"
    using cycle_without_overlap [OF one later'] by blast
  have "length (m # ms) = Suc n \<and>
          eventLoop r io getCached grp (serial (length tasks) (m # ms)) w s tasks
            = (evs, w', s', tasks @ replicate (Suc n) Finished)"
    using len first res by (simp add: replicate_append_same)
  then show ?case ..
qed

text \<open>
  C3. The claim: once an alert is triggered, no later cycle evaluates it or notifies it
  again, and its notification is sent at most once. The code with two calls of
  \<open>checkAlerts\<close> in flight, for one chat with one active alert whose target is reached: the
  first call filters the alert and waits for the resolver; the timer fires, and the
  second call filters the same alert, still active, and waits in turn; the first call
  gets its answer, triggers the alert and notifies; the second call gets its answer, does
  not look at the status, triggers the alert again and notifies again. The alert is
  notified twice.
\<close>

theorem overlapping_cycles_notify_twice:
  "eventLoop exactRuntime clockIo (priceIs 0.5) (\<lambda>w. [])
       [Tick, Resume 0, Tick, Resume 1, Resume 0, Resume 1]
       1700000030000 (engineWith [dogeAlert]) []
     = ([Evaluate 1 0, Notify 1 0 (TargetAlert dogeFired) True,
         Evaluate 1 0, Notify 1 0 (TargetAlert dogeFired) True],
        1700000030000, engineWith [dogeFired], [Finished, Finished]) \<and>
   notifications 1 0
     (fst (eventLoop exactRuntime clockIo (priceIs 0.5) (\<lambda>w. [])
             [Tick, Resume 0, Tick, Resume 1, Resume 0, Resume 1]
             1700000030000 (engineWith [dogeAlert]) [])) = 2"
proof -
  have run: "eventLoop exactRuntime clockIo (priceIs 0.5) (\<lambda>w. [])
               [Tick, Resume 0, Tick, Resume 1, Resume 0, Resume 1]
               1700000030000 (engineWith [dogeAlert]) []
     = ([Evaluate 1 0, Notify 1 0 (TargetAlert dogeFired) True,
         Evaluate 1 0, Notify 1 0 (TargetAlert dogeFired) True],
        1700000030000, engineWith [dogeFired], [Finished, Finished])"
    by (simp add: checkAutoVolatilityAlerts_def engineWith_def resumeTask_def
        activePositions_def upt_rec checkAlert_def shouldTrigger_def priceIs_def
        currentPriceOf_def clockIo_def dogeFired_def dogeAlert_def newAlert_def Let_def)
  show ?thesis
    unfolding run by (simp add: notifications_def)
qed


end
